theory Spec2Isabelle
  imports Complex_Main "HOL-Library.Word" "HOL-Library.Log_Nat"
begin

section \<open>JavaScript values used by the typing engine\<close>

subsection \<open>Strings\<close>

text \<open>
  A JavaScript string is a sequence of UTF-16 code units; \<open>length\<close>, indexing and
  \<open>===\<close> work on code units. \<open>str\<close> turns an ASCII literal into such a sequence.
\<close>

type_synonym code_unit = "16 word"
type_synonym js_string = "code_unit list"

definition str :: "string \<Rightarrow> js_string" where
  "str s = map of_char s"

definition SPACE :: code_unit where
  "SPACE = 0x20"

text \<open>
  \<open>String.prototype.trim\<close> removes WhiteSpace and LineTerminator code units from both ends:
  TAB, LF, VT, FF, CR, SP, NBSP, U+1680, U+2000..U+200A, U+2028, U+2029, U+202F, U+205F,
  U+3000 and U+FEFF.
\<close>

definition is_whitespace :: "code_unit \<Rightarrow> bool" where
  "is_whitespace c \<longleftrightarrow>
     c \<in> {0x09, 0x0A, 0x0B, 0x0C, 0x0D, 0x20, 0xA0, 0x1680,
          0x2000, 0x2001, 0x2002, 0x2003, 0x2004, 0x2005, 0x2006, 0x2007, 0x2008, 0x2009, 0x200A,
          0x2028, 0x2029, 0x202F, 0x205F, 0x3000, 0xFEFF}"

definition trim :: "js_string \<Rightarrow> js_string" where
  "trim s = rev (dropWhile is_whitespace (rev (dropWhile is_whitespace s)))"

text \<open>\<open>value.endsWith(' ')\<close>\<close>

definition endsWith_space :: "js_string \<Rightarrow> bool" where
  "endsWith_space s \<longleftrightarrow> s \<noteq> [] \<and> last s = SPACE"

text \<open>\<open>s.slice(0, -1)\<close>: everything but the last code unit (the empty string stays empty).\<close>

definition slice_drop_last :: "js_string \<Rightarrow> js_string" where
  "slice_drop_last s = butlast s"

text \<open>\<open>q.split(' ')\<close>: the pieces between single spaces; never an empty array.\<close>

fun split_space :: "js_string \<Rightarrow> js_string list" where
  "split_space [] = [[]]"
| "split_space (c # cs) =
     (if c = SPACE then [] # split_space cs
      else (case split_space cs of p # ps \<Rightarrow> (c # p) # ps | [] \<Rightarrow> [[c]]))"

text \<open>\<open>String(n)\<close> for a non-negative integer: its decimal digits.\<close>

fun String_of_nat :: "nat \<Rightarrow> js_string" where
  "String_of_nat n =
     (if n < 10 then [0x30 + of_nat n]
      else String_of_nat (n div 10) @ [0x30 + of_nat (n mod 10)])"

declare String_of_nat.simps [simp del]

subsection \<open>Numbers\<close>

text \<open>
  A JavaScript number is an IEEE-754 binary64 value. The engine's counters, timestamps
  and limits are integers far below \<open>2^53\<close>, where \<open>+\<close>, \<open>-\<close> and comparisons are exact;
  they are modelled as \<open>nat\<close> and \<open>int\<close>. Division and multiplication round their exact
  result to the nearest binary64 value, ties to even. \<open>round_double\<close> is that rounding on
  the rationals (53-bit significand; the exponent range is not modelled, no value of the
  engine comes near its ends).
\<close>

definition ilog2 :: "rat \<Rightarrow> int" where
  \<comment> \<open>for \<open>0 < x\<close>: the exponent \<open>e\<close> with \<open>2^e \<le> x < 2^(e+1)\<close>\<close>
  "ilog2 x = (if 1 \<le> x then bitlen \<lfloor>x\<rfloor> - 1 else - bitlen (\<lceil>1 / x\<rceil> - 1))"

definition pow2 :: "int \<Rightarrow> rat" where
  "pow2 e = (if 0 \<le> e then 2 ^ nat e else 1 / 2 ^ nat (- e))"

definition round_half_even :: "rat \<Rightarrow> int" where
  "round_half_even y =
     (let f = \<lfloor>y\<rfloor>; d = y - of_int f
      in if d < 1 / 2 then f else if 1 / 2 < d then f + 1 else if even f then f else f + 1)"

definition round_double :: "rat \<Rightarrow> rat" where
  "round_double x =
     (if x = 0 then 0
      else let u = pow2 (ilog2 \<bar>x\<bar> - 52)
           in sgn x * of_int (round_half_even (\<bar>x\<bar> / u)) * u)"

definition js_div :: "rat \<Rightarrow> rat \<Rightarrow> rat" where
  \<comment> \<open>\<open>a / b\<close> for \<open>b \<noteq> 0\<close>\<close>
  "js_div a b = round_double (a / b)"

definition js_mul :: "rat \<Rightarrow> rat \<Rightarrow> rat" where
  "js_mul a b = round_double (a * b)"

text \<open>\<open>Math.round\<close> rounds to the nearest integer, ties towards \<open>+\<infinity>\<close>; \<open>Math.floor\<close>.\<close>

definition Math_round :: "rat \<Rightarrow> int" where
  "Math_round x = \<lfloor>x + 1 / 2\<rfloor>"

definition Math_floor :: "rat \<Rightarrow> int" where
  "Math_floor x = \<lfloor>x\<rfloor>"

text \<open>\<open>r || 0\<close> on a number that is not NaN.\<close>

definition or_zero :: "int \<Rightarrow> int" where
  "or_zero r = (if r = 0 then 0 else r)"

text \<open>\<open>clamp(v, lo, hi)\<close>, defined beside the engine and called nowhere in it.\<close>

definition clamp :: "int \<Rightarrow> int \<Rightarrow> int \<Rightarrow> int" where
  "clamp v lo hi = max lo (min hi v)"

section \<open>Word generation\<close>

definition DEFAULT_WORDS :: "js_string list" where
  "DEFAULT_WORDS = map str [
    ''the'', ''and'', ''to'', ''of'', ''a'', ''in'', ''that'', ''it'', ''is'', ''was'', ''i'',
    ''for'', ''on'', ''you'', ''he'', ''be'', ''with'', ''as'', ''by'', ''at'', ''have'',
    ''are'', ''this'', ''not'', ''but'', ''had'', ''his'', ''they'', ''from'', ''she'',
    ''which'', ''or'', ''we'', ''an'', ''there'', ''their'', ''one'', ''all'', ''would'',
    ''when'', ''who'', ''what'', ''so'', ''up'', ''out'', ''if'', ''about'', ''get'', ''can'',
    ''like'', ''me'', ''just'', ''him'', ''know'', ''take'', ''into'', ''your'', ''good'',
    ''some'', ''could'', ''them'', ''see'', ''other'', ''than'', ''then'', ''now'', ''look'',
    ''only'', ''come'', ''its'', ''over'', ''think'', ''also'', ''back'', ''after'', ''use'',
    ''two'', ''how'', ''our'', ''work'', ''first'', ''well'', ''way'', ''even'', ''new'',
    ''want'', ''because'', ''any'', ''these'', ''give'', ''day'', ''most'', ''us'']"

text \<open>
  \<open>Math.random()\<close> is the environment's: a stream \<open>rnd\<close> of raw 53-bit draws and a
  position in it. Each draw is a binary64 value in \<open>[0, 1)\<close>.
\<close>

type_synonym rng = "nat \<Rightarrow> int"

definition Math_random :: "rng \<Rightarrow> nat \<Rightarrow> rat" where
  "Math_random rnd pos = of_int (rnd pos mod 2 ^ 53) / 2 ^ 53"

text \<open>\<open>Math.floor(Math.random() * n)\<close>\<close>

definition random_index :: "rng \<Rightarrow> nat \<Rightarrow> nat \<Rightarrow> nat" where
  "random_index rnd pos n = nat (Math_floor (js_mul (Math_random rnd pos) (of_nat n)))"

text \<open>
  \<open>shuffleArray\<close>: a copy of the array, then for \<open>i\<close> from \<open>length - 1\<close> down to \<open>1\<close> the
  elements at \<open>i\<close> and at a random \<open>j \<le> i\<close> are swapped.
\<close>

fun shuffle_loop :: "'a list \<Rightarrow> nat \<Rightarrow> rng \<Rightarrow> nat \<Rightarrow> 'a list" where
  "shuffle_loop a 0 rnd pos = a"
| "shuffle_loop a (Suc i) rnd pos =
     (let j = random_index rnd pos (Suc i + 1)
      in shuffle_loop (a[Suc i := a ! j, j := a ! Suc i]) i rnd (pos + 1))"

definition shuffleArray :: "'a list \<Rightarrow> rng \<Rightarrow> 'a list" where
  "shuffleArray arr rnd = shuffle_loop arr (length arr - 1) rnd 0"

text \<open>Numbers mode: one token per iteration, two draws each.\<close>

definition number_token :: "rng \<Rightarrow> nat \<Rightarrow> js_string" where
  "number_token rnd pos =
     (let r = Math_random rnd pos
      in if round_double (8 / 10) < r then String_of_nat (random_index rnd (pos + 1) 9000 + 100)
         else if round_double (5 / 10) < r then String_of_nat (random_index rnd (pos + 1) 100)
         else String_of_nat (random_index rnd (pos + 1) 10))"

function numbers_loop :: "rng \<Rightarrow> nat \<Rightarrow> nat \<Rightarrow> int \<Rightarrow> js_string list \<Rightarrow> js_string list" where
  "numbers_loop rnd pos i count out =
     (if int i < count
      then numbers_loop rnd (pos + 2) (i + 1) count (out @ [number_token rnd pos])
      else out)"
  by pat_completeness auto
termination
  by (relation "measure (\<lambda>(rnd, pos, i, count, out). nat (count - int i))") auto

declare numbers_loop.simps [simp del]

text \<open>Quotes mode: whole quotes are drawn and their words pushed until \<open>count\<close> is reached.\<close>

definition sampleQuotes :: "js_string list" where
  "sampleQuotes = map str [
    ''To be or not to be'',
    ''I think therefore I am'',
    ''There is no substitute for hard work'',
    ''All that glitters is not gold'',
    ''The only limit to our realization of tomorrow is our doubts of today'',
    ''Life is what happens when you're busy making other plans'',
    ''Get busy living or get busy dying'']"

fun push_parts :: "js_string list \<Rightarrow> js_string list \<Rightarrow> int \<Rightarrow> js_string list" where
  "push_parts [] out count = out"
| "push_parts (p # ps) out count =
     (if int (length out) < count then push_parts ps (out @ [p]) count else out)"

lemma push_parts_length:
  "length (push_parts ps out count) =
     (if int (length out) < count then min (length out + length ps) (nat count) else length out)"
  by (induction ps arbitrary: out) auto

lemma split_space_not_Nil: "split_space s \<noteq> []"
  by (induction s) (auto split: list.splits)

function quotes_loop :: "rng \<Rightarrow> nat \<Rightarrow> int \<Rightarrow> js_string list \<Rightarrow> js_string list" where
  "quotes_loop rnd pos count out =
     (if int (length out) < count
      then quotes_loop rnd (pos + 1) count
             (push_parts (split_space (sampleQuotes ! random_index rnd pos (length sampleQuotes)))
                out count)
      else out)"
  by pat_completeness auto
termination
proof (relation "measure (\<lambda>(rnd, pos, count, out). nat (count - int (length out)))")
  show "wf (measure (\<lambda>(rnd, pos, count, out). nat (count - int (length out))))"
    by simp
next
  fix rnd :: rng and pos :: nat and count :: int and out :: "js_string list"
  assume lt: "int (length out) < count"
  define ps where "ps = split_space (sampleQuotes ! random_index rnd pos (length sampleQuotes))"
  have "ps \<noteq> []"
    by (simp add: ps_def split_space_not_Nil)
  then have "0 < length ps"
    by simp
  with lt have "length out < length (push_parts ps out count)"
    by (simp add: push_parts_length)
  with lt show "((rnd, pos + 1, count, push_parts ps out count), (rnd, pos, count, out))
      \<in> measure (\<lambda>(rnd, pos, count, out). nat (count - int (length out)))"
    by simp
qed

declare quotes_loop.simps [simp del]

text \<open>
  English mode (every mode other than \<open>numbers\<close> and \<open>quotes\<close>): the shuffled pool is
  appended until the result is long enough. The loop has no other exit, so it is a partial
  function: \<open>None\<close> is "never returns".
\<close>

partial_function (option) english_loop ::
    "js_string list \<Rightarrow> int \<Rightarrow> js_string list \<Rightarrow> js_string list option" where
  "english_loop pool count result =
     (if int (length result) < count then english_loop pool count (result @ pool)
      else Some result)"

declare english_loop.simps [code]

text \<open>\<open>result.slice(0, count)\<close>; a negative \<open>count\<close> counts from the end.\<close>

definition slice_from_0 :: "'a list \<Rightarrow> int \<Rightarrow> 'a list" where
  "slice_from_0 xs count =
     (if count < 0 then take (nat (int (length xs) + count)) xs else take (nat count) xs)"

definition generateWords ::
    "js_string \<Rightarrow> js_string list \<Rightarrow> int \<Rightarrow> rng \<Rightarrow> js_string list option" where
  "generateWords md pool count rnd =
     (if md = str ''numbers'' then Some (numbers_loop rnd 0 0 count [])
      else if md = str ''quotes'' then Some (quotes_loop rnd 0 count [])
      else (case english_loop (shuffleArray pool rnd) count [] of
              None \<Rightarrow> None
            | Some result \<Rightarrow> Some (slice_from_0 result count)))"

section \<open>The typing engine\<close>

subsection \<open>State\<close>

text \<open>An entry of \<open>wordHistory\<close>; \<open>finish\<close> pushes one without the \<open>perfect\<close> field.\<close>

record word_result =
  wh_word :: "js_string option"
  wh_typed :: js_string
  wh_correct :: nat
  wh_perfect :: "bool option"
  wh_timeTaken :: nat

text \<open>\<open>{ wpm, accuracy, raw }\<close>: the finish payload and the shape of \<open>best\<close>.\<close>

record stats =
  wpm :: int
  accuracy :: int
  raw :: int

record tick_payload =
  tp_timeLeft :: int
  tp_elapsed :: int
  tp_wpm :: int

text \<open>\<open>u && u === t\<close> is the empty string when \<open>u\<close> is empty and a boolean otherwise.\<close>

datatype js_ok = OkEmpty | OkBool bool

record char_state =
  cs_target :: js_string
  cs_typed :: js_string
  cs_correct :: js_ok

record word_state =
  ws_word :: js_string
  ws_typed :: js_string
  ws_chars :: "char_state list"
  ws_isComplete :: bool
  ws_correctCount :: nat

text \<open>The calls the engine makes to the callbacks registered on it, in order.\<close>

datatype event =
    OnStart
  | OnTick tick_payload
  | OnFinish stats
  | OnUpdateWordState word_state

text \<open>
  The fields of a \<open>TypingEngine\<close>. \<open>historyInterval\<close> says whether the sampling timer is
  armed; \<open>onStart\<close> .. \<open>onUpdateWordState\<close> say whether the callback is a function;
  \<open>storage\<close> is the \<open>localStorage\<close> slot under \<open>localStorageKey\<close>; \<open>events\<close> is the
  trace of callback calls. \<open>spaceCountsAsChar\<close> is assigned \<open>true\<close> once and never again.
\<close>

record engine =
  timeLimit :: int
  mode :: js_string
  wordsPool :: "js_string list"
  seedSize :: int
  words :: "js_string list"
  currentWordIndex :: nat
  currentInput :: js_string
  startedAt :: "int option"
  endedAt :: "int option"
  started :: bool
  finished :: bool
  timeLeft :: int
  typedChars :: nat
  correctChars :: nat
  wordHistory :: "word_result list"
  wpmHistory :: "int list"
  lastTickAt :: "int option"
  historyInterval :: bool
  onStart :: bool
  onTick :: bool
  onFinish :: bool
  onUpdateWordState :: bool
  localStorageKey :: js_string
  best :: stats
  storage :: "stats option"
  events :: "event list"

definition spaceCountsAsChar :: bool where
  "spaceCountsAsChar = True"

text \<open>A timestamp field is falsy when it is \<open>null\<close> or \<open>0\<close>; \<open>null\<close> is \<open>0\<close> in arithmetic.\<close>

definition truthy :: "int option \<Rightarrow> bool" where
  "truthy t = (case t of None \<Rightarrow> False | Some v \<Rightarrow> v \<noteq> 0)"

definition num :: "int option \<Rightarrow> int" where
  "num t = (case t of None \<Rightarrow> 0 | Some v \<Rightarrow> v)"

definition emit :: "bool \<Rightarrow> event \<Rightarrow> engine \<Rightarrow> engine" where
  "emit registered e s = (if registered then s\<lparr>events := events s @ [e]\<rparr> else s)"

subsection \<open>Queries\<close>

definition getCurrentWord :: "engine \<Rightarrow> js_string" where
  \<comment> \<open>\<open>this.words[this.currentWordIndex] || ''\<close>\<close>
  "getCurrentWord s =
     (if currentWordIndex s < length (words s) then words s ! currentWordIndex s else [])"

definition char_at :: "js_string \<Rightarrow> nat \<Rightarrow> js_string" where
  \<comment> \<open>\<open>s[i] || ''\<close>\<close>
  "char_at s i = (if i < length s then [s ! i] else [])"

definition getCurrentWordState :: "engine \<Rightarrow> word_state" where
  "getCurrentWordState s =
     (let target = getCurrentWord s;
          typed = currentInput s;
          chars = map (\<lambda>i. \<lparr>cs_target = char_at target i, cs_typed = char_at typed i,
                             cs_correct = (if char_at typed i = [] then OkEmpty
                                           else OkBool (char_at typed i = char_at target i))\<rparr>)
                    [0 ..< max (length target) (length typed)]
      in \<lparr>ws_word = target, ws_typed = typed, ws_chars = chars,
          ws_isComplete = (typed = target),
          ws_correctCount = length (filter (\<lambda>c. cs_correct c = OkBool True) chars)\<rparr>)"

definition getElapsedSeconds :: "engine \<Rightarrow> int \<Rightarrow> int" where
  "getElapsedSeconds s now =
     (if \<not> truthy (startedAt s) then 0
      else if truthy (endedAt s)
        then Math_floor (js_div (of_int (num (endedAt s) - num (startedAt s))) 1000)
      else Math_floor (js_div (of_int (now - num (startedAt s))) 1000))"

definition getWPM :: "engine \<Rightarrow> int \<Rightarrow> int" where
  "getWPM s now =
     (let elapsed = getElapsedSeconds s now
      in if elapsed \<le> 0 then 0
         else let minutes = js_div (of_int elapsed) 60
              in or_zero (Math_round (js_div (js_div (of_nat (correctChars s)) 5) minutes)))"

definition getRawSpeed :: "engine \<Rightarrow> int \<Rightarrow> int" where
  "getRawSpeed s now =
     (let elapsed = getElapsedSeconds s now
      in if elapsed \<le> 0 then 0
         else let minutes = js_div (of_int elapsed) 60
              in or_zero (Math_round (js_div (js_div (of_nat (typedChars s)) 5) minutes)))"

definition getAccuracy :: "engine \<Rightarrow> int" where
  "getAccuracy s =
     (if typedChars s = 0 then 100
      else or_zero (Math_round
             (js_mul (js_div (of_nat (correctChars s)) (of_nat (typedChars s))) 100)))"

subsection \<open>Commands\<close>

text \<open>Every command takes \<open>now\<close>, the value of \<open>Date.now()\<close> during the call.\<close>

definition addHistoryPoint :: "engine \<Rightarrow> int \<Rightarrow> engine" where
  \<comment> \<open>\<open>_addHistoryPoint\<close>: push, then shift once if the length exceeds 120\<close>
  "addHistoryPoint s w =
     (let h = wpmHistory s @ [Math_round (of_int w)]
      in s\<lparr>wpmHistory := (if 120 < length h then tl h else h)\<rparr>)"

definition start :: "engine \<Rightarrow> int \<Rightarrow> engine" where
  "start s now =
     (if started s then s
      else emit (onStart s) OnStart
             (s\<lparr>started := True, startedAt := Some now, endedAt := None,
                historyInterval := True\<rparr>))"

text \<open>The callback of the sampling timer armed by \<open>_startHistoryInterval\<close>.\<close>

definition historyIntervalFires :: "engine \<Rightarrow> int \<Rightarrow> engine" where
  "historyIntervalFires s now =
     (if historyInterval s then addHistoryPoint s (getWPM s now) else s)"

definition finish :: "engine \<Rightarrow> int \<Rightarrow> engine" where
  "finish s now =
     (if finished s then s
      else
        let s1 = s\<lparr>finished := True, endedAt := Some now, started := False,
                   historyInterval := False\<rparr>;
            s2 = (if 0 < length (currentInput s1)
                  then s1\<lparr>wordHistory := wordHistory s1 @
                         [\<lparr>wh_word = (if currentWordIndex s1 < length (words s1)
                                       then Some (words s1 ! currentWordIndex s1) else None),
                           wh_typed = currentInput s1, wh_correct = 0, wh_perfect = None,
                           wh_timeTaken = 0\<rparr>]\<rparr>
                  else s1);
            st = \<lparr>wpm = getWPM s2 now, accuracy = getAccuracy s2, raw = getRawSpeed s2 now\<rparr>;
            s3 = (if wpm (best s2) < wpm st then s2\<lparr>best := st, storage := Some st\<rparr> else s2)
        in emit (onFinish s3) (OnFinish st) s3)"

definition tick :: "engine \<Rightarrow> int \<Rightarrow> engine" where
  "tick s now =
     (if \<not> started s \<or> finished s then s
      else
        let elapsed = Math_floor (js_div (of_int (now - num (startedAt s))) 1000);
            s1 = s\<lparr>lastTickAt := Some now, timeLeft := max 0 (timeLimit s - elapsed)\<rparr>;
            s2 = emit (onTick s1)
                   (OnTick \<lparr>tp_timeLeft = timeLeft s1, tp_elapsed = elapsed,
                            tp_wpm = getWPM s1 now\<rparr>) s1;
            s3 = addHistoryPoint s2 (getWPM s2 now)
        in if timeLeft s3 \<le> 0 then finish s3 now else s3)"

text \<open>The loop of \<open>processInput\<close> that counts the positions where both strings agree.\<close>

function count_correct :: "js_string \<Rightarrow> js_string \<Rightarrow> nat \<Rightarrow> nat \<Rightarrow> nat" where
  "count_correct typed target i correct =
     (if i < min (length typed) (length target)
      then count_correct typed target (i + 1)
             (if typed ! i = target ! i then correct + 1 else correct)
      else correct)"
  by pat_completeness auto
termination
  by (relation "measure (\<lambda>(typed, target, i, correct). min (length typed) (length target) - i)")
     auto

declare count_correct.simps [simp del]

definition processInput :: "engine \<Rightarrow> js_string \<Rightarrow> int \<Rightarrow> engine" where
  "processInput s v now =
     (if finished s then s
      else
        let s0 = (if \<not> started s then start s now else s)
        in if endsWith_space v then
             let typed = trim v;
                 target = getCurrentWord s0;
                 typedIncrement = length typed + (if spaceCountsAsChar then 1 else 0);
                 s1 = s0\<lparr>typedChars := typedChars s0 + typedIncrement\<rparr>;
                 s2 = (if typed = target
                       then s1\<lparr>correctChars := correctChars s1 + (length target +
                                   (if spaceCountsAsChar then 1 else 0)),
                               wordHistory := wordHistory s1 @
                                 [\<lparr>wh_word = Some target, wh_typed = typed,
                                   wh_correct = length target, wh_perfect = Some True,
                                   wh_timeTaken = 0\<rparr>]\<rparr>
                       else let correct = count_correct typed target 0 0
                            in s1\<lparr>correctChars := correctChars s1 + correct,
                                  wordHistory := wordHistory s1 @
                                    [\<lparr>wh_word = Some target, wh_typed = typed,
                                      wh_correct = correct, wh_perfect = Some False,
                                      wh_timeTaken = 0\<rparr>]\<rparr>);
                 s3 = s2\<lparr>currentWordIndex := currentWordIndex s2 + 1, currentInput := []\<rparr>
             in emit (onUpdateWordState s3) (OnUpdateWordState (getCurrentWordState s3)) s3
           else
             let delta = int (length v) - int (length (currentInput s0));
                 s1 = (if 0 < delta then s0\<lparr>typedChars := typedChars s0 + nat delta\<rparr> else s0);
                 s2 = s1\<lparr>currentInput := v\<rparr>
             in emit (onUpdateWordState s2) (OnUpdateWordState (getCurrentWordState s2)) s2)"

definition processKeystroke :: "engine \<Rightarrow> js_string \<Rightarrow> int \<Rightarrow> engine" where
  "processKeystroke s ch now =
     (if finished s then s
      else
        let s0 = (if \<not> started s then start s now else s)
        in if ch = str ''Backspace'' then
             let s1 = s0\<lparr>currentInput := slice_drop_last (currentInput s0)\<rparr>
             in emit (onUpdateWordState s1) (OnUpdateWordState (getCurrentWordState s1)) s1
           else
             let s1 = s0\<lparr>currentInput := currentInput s0 @ ch,
                         typedChars := typedChars s0 + 1\<rparr>
             in if ch = [SPACE] then processInput s1 (currentInput s1) now
                else emit (onUpdateWordState s1) (OnUpdateWordState (getCurrentWordState s1)) s1)"

text \<open>
  \<open>resetTest\<close> generates the words first; when that loop never ends, neither does the
  call (\<open>None\<close>).
\<close>

definition resetTest :: "engine \<Rightarrow> rng \<Rightarrow> int \<Rightarrow> engine option" where
  "resetTest s rnd now =
     (case generateWords (mode s) (wordsPool s) (seedSize s) rnd of
        None \<Rightarrow> None
      | Some ws \<Rightarrow>
          let s1 = s\<lparr>historyInterval := False, words := ws, currentWordIndex := 0,
                     currentInput := [], startedAt := None, endedAt := None, started := False,
                     finished := False, timeLeft := timeLimit s, typedChars := 0,
                     correctChars := 0, wordHistory := [], wpmHistory := [] @ replicate 5 0,
                     lastTickAt := Some now\<rparr>
          in Some (emit (onUpdateWordState s1) (OnUpdateWordState (getCurrentWordState s1)) s1))"

definition setMode :: "engine \<Rightarrow> js_string \<Rightarrow> rng \<Rightarrow> int \<Rightarrow> engine option" where
  "setMode s m rnd now = resetTest (s\<lparr>mode := m\<rparr>) rnd now"

definition setTimeLimit :: "engine \<Rightarrow> int \<Rightarrow> rng \<Rightarrow> int \<Rightarrow> engine option" where
  "setTimeLimit s sec rnd now = resetTest (s\<lparr>timeLimit := sec, timeLeft := sec\<rparr>) rnd now"

subsection \<open>Construction\<close>

text \<open>
  The options object; \<open>None\<close> is an absent property. \<open>loaded\<close> is what \<open>_loadBest\<close> finds in
  storage (\<open>None\<close> when the slot is empty or does not parse).
\<close>

record options =
  opt_timeLimit :: "int option"
  opt_mode :: "js_string option"
  opt_words :: "js_string list option"
  opt_seedSize :: "int option"
  opt_localStorageKey :: "js_string option"

definition or_default_int :: "int option \<Rightarrow> int \<Rightarrow> int" where
  \<comment> \<open>\<open>x || d\<close> on a number: \<open>undefined\<close> and \<open>0\<close> are falsy\<close>
  "or_default_int x d = (case x of None \<Rightarrow> d | Some v \<Rightarrow> if v = 0 then d else v)"

definition or_default_str :: "js_string option \<Rightarrow> js_string \<Rightarrow> js_string" where
  \<comment> \<open>\<open>x || d\<close> on a string: \<open>undefined\<close> and \<open>''\<close> are falsy\<close>
  "or_default_str x d = (case x of None \<Rightarrow> d | Some v \<Rightarrow> if v = [] then d else v)"

definition constructor :: "options \<Rightarrow> stats option \<Rightarrow> rng \<Rightarrow> int \<Rightarrow> engine option" where
  "constructor opts loaded rnd now =
     resetTest
       \<lparr>timeLimit = or_default_int (opt_timeLimit opts) 60,
        mode = or_default_str (opt_mode opts) (str ''english''),
        wordsPool = (case opt_words opts of None \<Rightarrow> DEFAULT_WORDS | Some ws \<Rightarrow> ws),
        seedSize = or_default_int (opt_seedSize opts) 200,
        words = [], currentWordIndex = 0, currentInput = [],
        startedAt = None, endedAt = None, started = False, finished = False,
        timeLeft = or_default_int (opt_timeLimit opts) 60,
        typedChars = 0, correctChars = 0, wordHistory = [], wpmHistory = [],
        lastTickAt = None, historyInterval = False,
        onStart = False, onTick = False, onFinish = False, onUpdateWordState = False,
        localStorageKey = or_default_str (opt_localStorageKey opts) (str ''sebtype:best''),
        best = (case loaded of None \<Rightarrow> \<lparr>wpm = 0, accuracy = 0, raw = 0\<rparr> | Some b \<Rightarrow> b),
        storage = loaded, events = []\<rparr>
       rnd now"

subsection \<open>Sessions\<close>

text \<open>
  What can happen to an engine after its construction: a command is called, the sampling
  timer fires, or the caller assigns the callback fields. A session is a sequence of these;
  it ends in \<open>None\<close> when one of its calls never returns.
\<close>

datatype command =
    ProcessInput js_string int
  | ProcessKeystroke js_string int
  | Tick int
  | Finish int
  | Start int
  | ResetTest rng int
  | SetMode js_string rng int
  | SetTimeLimit int rng int
  | HistoryIntervalFires int
  | AssignCallbacks bool bool bool bool

fun step :: "engine \<Rightarrow> command \<Rightarrow> engine option" where
  "step s (ProcessInput v now) = Some (processInput s v now)"
| "step s (ProcessKeystroke ch now) = Some (processKeystroke s ch now)"
| "step s (Tick now) = Some (tick s now)"
| "step s (Finish now) = Some (finish s now)"
| "step s (Start now) = Some (start s now)"
| "step s (ResetTest rnd now) = resetTest s rnd now"
| "step s (SetMode m rnd now) = setMode s m rnd now"
| "step s (SetTimeLimit sec rnd now) = setTimeLimit s sec rnd now"
| "step s (HistoryIntervalFires now) = Some (historyIntervalFires s now)"
| "step s (AssignCallbacks a b c d) =
     Some (s\<lparr>onStart := a, onTick := b, onFinish := c, onUpdateWordState := d\<rparr>)"

fun run :: "engine \<Rightarrow> command list \<Rightarrow> engine option" where
  "run s [] = Some s"
| "run s (c # cs) = (case step s c of None \<Rightarrow> None | Some s' \<Rightarrow> run s' cs)"

text \<open>Typing a sequence of single characters, one \<open>processKeystroke\<close> call each.\<close>

fun type_keys :: "engine \<Rightarrow> (code_unit \<times> int) list \<Rightarrow> engine" where
  "type_keys s [] = s"
| "type_keys s ((c, now) # ks) = type_keys (processKeystroke s [c] now) ks"

subsection \<open>The formulas of the specification\<close>

text \<open>
  The specification writes the metrics as \<open>round((correctChars / 5) / (elapsedSeconds / 60))\<close>
  and \<open>round((correctChars / typedChars) * 100)\<close>, and obtains \<open>typed\<close> by trimming the
  separator from the value. Read as they stand, in exact arithmetic and with \<open>round\<close> taking
  a half upwards as \<open>Math.round\<close> does, they are the functions below; the theorems compare
  the engine with them.
\<close>

definition spec_round :: "rat \<Rightarrow> int" where
  "spec_round x = \<lfloor>x + 1 / 2\<rfloor>"

definition spec_wpm :: "nat \<Rightarrow> int \<Rightarrow> int" where
  "spec_wpm c e = (if e \<le> 0 then 0 else spec_round ((of_nat c / 5) / (of_int e / 60)))"

definition spec_accuracy :: "nat \<Rightarrow> nat \<Rightarrow> int" where
  "spec_accuracy c t = (if t = 0 then 100 else spec_round ((of_nat c / of_nat t) * 100))"

definition strip_separator :: "js_string \<Rightarrow> js_string" where
  "strip_separator v = butlast v"

subsection \<open>Concrete engines\<close>

text \<open>
  The engine built by \<open>new TypingEngine({ words: ['the'], seedSize: 1 })\<close> at time \<open>now\<close>
  on empty storage, used to run the operations on a concrete state.
\<close>

definition the_options :: options where
  "the_options = \<lparr>opt_timeLimit = None, opt_mode = None, opt_words = Some [str ''the''],
     opt_seedSize = Some 1, opt_localStorageKey = None\<rparr>"

definition the_engine :: "int \<Rightarrow> engine" where
  "the_engine now =
     \<lparr>timeLimit = 60, mode = str ''english'', wordsPool = [str ''the''], seedSize = 1,
      words = [str ''the''], currentWordIndex = 0, currentInput = [],
      startedAt = None, endedAt = None, started = False, finished = False, timeLeft = 60,
      typedChars = 0, correctChars = 0, wordHistory = [], wpmHistory = [0, 0, 0, 0, 0],
      lastTickAt = Some now, historyInterval = False,
      onStart = False, onTick = False, onFinish = False, onUpdateWordState = False,
      localStorageKey = str ''sebtype:best'', best = \<lparr>wpm = 0, accuracy = 0, raw = 0\<rparr>,
      storage = None, events = []\<rparr>"

text \<open>A stream whose every draw is \<open>0\<close>.\<close>

definition zero_rng :: rng where
  "zero_rng = (\<lambda>_. 0)"

text \<open>The two bounds every session keeps.\<close>

definition counters_ok :: "engine \<Rightarrow> bool" where
  "counters_ok s \<longleftrightarrow> correctChars s \<le> typedChars s \<and> length (wpmHistory s) \<le> 120"

text \<open>The keystrokes t, h, e with their times.\<close>

definition the_keys :: "(code_unit \<times> int) list" where
  "the_keys = zip (str ''the'') [1000, 1100, 1200]"

text \<open>
  \<open>new TypingEngine({ mode: 'numbers', words: [], seedSize: 1 })\<close> and the engine it builds
  when every draw is 0.
\<close>

definition numbers_options :: options where
  "numbers_options = \<lparr>opt_timeLimit = None, opt_mode = Some (str ''numbers''),
     opt_words = Some [], opt_seedSize = Some 1, opt_localStorageKey = None\<rparr>"

definition numbers_engine :: engine where
  "numbers_engine = (the_engine 0)\<lparr>mode := str ''numbers'', wordsPool := [],
     words := [str ''0'']\<rparr>"

text \<open>The engine \<open>the_engine 0\<close> after \<open>processInput('th')\<close>: started, two characters typed.\<close>

definition mid_run_engine :: engine where
  "mid_run_engine = processInput (the_engine 0) (str ''th'') 1000"

text \<open>Options with a negative time limit and a negative seed size.\<close>

definition negative_options :: options where
  "negative_options = \<lparr>opt_timeLimit = Some (- 5), opt_mode = None,
     opt_words = Some [str ''the''], opt_seedSize = Some (- 3), opt_localStorageKey = None\<rparr>"

text \<open>An engine started at time 1000 with 250 characters typed, all correct.\<close>

definition half_minute_engine :: engine where
  "half_minute_engine = (the_engine 0)\<lparr>started := True, startedAt := Some 1000,
     historyInterval := True, typedChars := 250, correctChars := 250\<rparr>"

text \<open>
  Typing \<open>the\<close> and the space through \<open>processInput\<close>, one call for each value the input
  box takes.
\<close>

fun type_values :: "engine \<Rightarrow> (js_string \<times> int) list \<Rightarrow> engine" where
  "type_values s [] = s"
| "type_values s ((v, now) # vs) = type_values (processInput s v now) vs"

definition the_values :: "(js_string \<times> int) list" where
  "the_values = [(str ''t'', 1000), (str ''th'', 1100), (str ''the'', 1200),
     (str ''the '', 1300)]"

text \<open>The value \<open>the\<close> with a tab before it and the space after it.\<close>

definition tab_the :: js_string where
  "tab_the = 0x09 # str ''the ''"

text \<open>
  Engines started at time 1000 with 41 characters typed, all correct, and with 40 typed of
  which 23 are correct; and the engine \<open>half_minute_engine\<close> finished at 31000 and started
  again at 40000.
\<close>

definition tie_engine :: engine where
  "tie_engine = (the_engine 0)\<lparr>started := True, startedAt := Some 1000,
     historyInterval := True, typedChars := 41, correctChars := 41\<rparr>"

definition accuracy_tie_engine :: engine where
  "accuracy_tie_engine = (the_engine 0)\<lparr>started := True, startedAt := Some 1000,
     historyInterval := True, typedChars := 40, correctChars := 23\<rparr>"

definition restarted_engine :: engine where
  "restarted_engine = start (finish half_minute_engine 31000) 40000"

section \<open>Properties\<close>

subsection \<open>Field lemmas\<close>

lemma emit_simps [simp]:
  "typedChars (emit b e s) = typedChars s"
  "correctChars (emit b e s) = correctChars s"
  "wordHistory (emit b e s) = wordHistory s"
  "wpmHistory (emit b e s) = wpmHistory s"
  "currentWordIndex (emit b e s) = currentWordIndex s"
  "currentInput (emit b e s) = currentInput s"
  "finished (emit b e s) = finished s"
  "started (emit b e s) = started s"
  "words (emit b e s) = words s"
  "mode (emit b e s) = mode s"
  "timeLimit (emit b e s) = timeLimit s"
  "timeLeft (emit b e s) = timeLeft s"
  "seedSize (emit b e s) = seedSize s"
  "startedAt (emit b e s) = startedAt s"
  "endedAt (emit b e s) = endedAt s"
  "historyInterval (emit b e s) = historyInterval s"
  "wordsPool (emit b e s) = wordsPool s"
  "lastTickAt (emit b e s) = lastTickAt s"
  "best (emit b e s) = best s"
  "storage (emit b e s) = storage s"
  "onStart (emit b e s) = onStart s"
  "onTick (emit b e s) = onTick s"
  "onFinish (emit b e s) = onFinish s"
  "onUpdateWordState (emit b e s) = onUpdateWordState s"
  by (simp_all add: emit_def)

lemma start_simps [simp]:
  "typedChars (start s now) = typedChars s"
  "correctChars (start s now) = correctChars s"
  "wordHistory (start s now) = wordHistory s"
  "wpmHistory (start s now) = wpmHistory s"
  "currentWordIndex (start s now) = currentWordIndex s"
  "currentInput (start s now) = currentInput s"
  "finished (start s now) = finished s"
  "words (start s now) = words s"
  by (simp_all add: start_def)

lemma getCurrentWord_start [simp]: "getCurrentWord (start s now) = getCurrentWord s"
  by (simp add: getCurrentWord_def)

lemma count_correct_eq:
  "count_correct typed target i c =
     c + card {j. i \<le> j \<and> j < min (length typed) (length target) \<and> typed ! j = target ! j}"
proof (induction typed target i c rule: count_correct.induct)
  case (1 typed target i correct)
  let ?n = "min (length typed) (length target)"
  let ?S = "\<lambda>i. {j. i \<le> j \<and> j < ?n \<and> typed ! j = target ! j}"
  show ?case
  proof (cases "i < ?n")
    case False
    then have "?S i = {}" by auto
    then have "card (?S i) = 0" by (simp only: card.empty)
    moreover have "count_correct typed target i correct = correct"
      using False by (subst count_correct.simps) (simp only: if_False)
    ultimately show ?thesis by (simp only: add_0_right)
  next
    case True
    have fin: "finite (?S (i + 1))" by simp
    have notin: "i \<notin> ?S (i + 1)" by simp
    have card_step: "card (?S i) = (if typed ! i = target ! i then 1 else 0) + card (?S (i + 1))"
    proof (cases "typed ! i = target ! i")
      case True
      have "?S i = insert i (?S (i + 1))"
        using True \<open>i < ?n\<close> by (auto simp: Suc_le_eq order_le_less)
      moreover have "card (insert i (?S (i + 1))) = Suc (card (?S (i + 1)))"
        by (rule card_insert_disjoint[OF fin notin])
      ultimately have "card (?S i) = Suc (card (?S (i + 1)))"
        by (rule ssubst)
      with True show ?thesis by simp
    next
      case False
      have "?S i = ?S (i + 1)"
        using False by (auto simp: Suc_le_eq order_le_less)
      then have "card (?S i) = card (?S (i + 1))"
        by (simp only:)
      with False show ?thesis by simp
    qed
    have "count_correct typed target i correct =
        count_correct typed target (i + 1) (if typed ! i = target ! i then correct + 1 else correct)"
      using True by (subst count_correct.simps) (simp only: if_True)
    also have "\<dots> = (if typed ! i = target ! i then correct + 1 else correct) + card (?S (i + 1))"
      using True by (rule "1.IH")
    also have "\<dots> = correct + card (?S i)"
      by (simp only: card_step split: if_splits) simp
    finally show ?thesis .
  qed
qed

lemma count_correct_le: "count_correct typed target 0 0 \<le> length typed"
proof -
  have "{j. j < min (length typed) (length target) \<and> typed ! j = target ! j} \<subseteq> {..<length typed}"
    by auto
  then have "card {j. j < min (length typed) (length target) \<and> typed ! j = target ! j} \<le> card {..<length typed}"
    by (rule card_mono[rotated]) simp
  then show ?thesis by (simp add: count_correct_eq)
qed

lemma finish_fields [simp]:
  "typedChars (finish s now) = typedChars s"
  "correctChars (finish s now) = correctChars s"
  "wpmHistory (finish s now) = wpmHistory s"
  by (simp_all add: finish_def Let_def)

lemma addHistoryPoint_fields [simp]:
  "typedChars (addHistoryPoint s w) = typedChars s"
  "correctChars (addHistoryPoint s w) = correctChars s"
  by (simp_all add: addHistoryPoint_def Let_def)

lemma addHistoryPoint_length:
  "length (wpmHistory s) \<le> 120 \<Longrightarrow> length (wpmHistory (addHistoryPoint s w)) \<le> 120"
  by (simp add: addHistoryPoint_def Let_def)

lemma tick_fields [simp]:
  "typedChars (tick s now) = typedChars s"
  "correctChars (tick s now) = correctChars s"
  by (simp_all add: tick_def Let_def)

lemma tick_history_length:
  "length (wpmHistory s) \<le> 120 \<Longrightarrow> length (wpmHistory (tick s now)) \<le> 120"
proof -
  assume h: "length (wpmHistory s) \<le> 120"
  have "length (wpmHistory (addHistoryPoint (emit b e (s\<lparr>lastTickAt := x, timeLeft := y\<rparr>)) w)) \<le> 120"
    for b e x y w
    using h by (intro addHistoryPoint_length) simp
  then show ?thesis
    using h by (simp add: tick_def Let_def)
qed

lemma historyIntervalFires_fields [simp]:
  "typedChars (historyIntervalFires s now) = typedChars s"
  "correctChars (historyIntervalFires s now) = correctChars s"
  by (simp_all add: historyIntervalFires_def)

lemma historyIntervalFires_length:
  "length (wpmHistory s) \<le> 120 \<Longrightarrow> length (wpmHistory (historyIntervalFires s now)) \<le> 120"
  by (simp add: historyIntervalFires_def addHistoryPoint_length)

lemma processInput_wpmHistory [simp]:
  "wpmHistory (processInput s v now) = wpmHistory s"
  by (simp add: processInput_def Let_def)

lemma processKeystroke_wpmHistory [simp]:
  "wpmHistory (processKeystroke s ch now) = wpmHistory s"
  by (simp add: processKeystroke_def Let_def)

lemma processInput_counters:
  assumes "correctChars s \<le> typedChars s"
  shows "correctChars (processInput s v now) \<le> typedChars (processInput s v now)"
proof -
  have "count_correct (trim v) t 0 0 \<le> length (trim v)" for t
    by (rule count_correct_le)
  then have "correctChars s + count_correct (trim v) t 0 0 \<le> Suc (typedChars s + length (trim v))" for t
    using assms by (meson add_mono le_SucI)
  with assms show ?thesis
    by (simp add: processInput_def Let_def spaceCountsAsChar_def)
qed

lemma processKeystroke_counters:
  assumes "correctChars s \<le> typedChars s"
  shows "correctChars (processKeystroke s ch now) \<le> typedChars (processKeystroke s ch now)"
proof -
  have "correctChars (processInput s' v now) \<le> typedChars (processInput s' v now)"
    if "correctChars s' \<le> typedChars s'" for s' v
    using that by (rule processInput_counters)
  then show ?thesis
    using assms by (simp add: processKeystroke_def Let_def)
qed

lemma resetTest_fields:
  assumes "resetTest s rnd now = Some s'"
  shows "typedChars s' = 0" "correctChars s' = 0" "wpmHistory s' = [0, 0, 0, 0, 0]"
    "currentWordIndex s' = 0" "currentInput s' = []" "\<not> started s'" "\<not> finished s'"
    "startedAt s' = None" "endedAt s' = None" "wordHistory s' = []"
    "timeLeft s' = timeLimit s" "timeLimit s' = timeLimit s" "mode s' = mode s"
    "seedSize s' = seedSize s" "\<not> historyInterval s'"
    "generateWords (mode s) (wordsPool s) (seedSize s) rnd = Some (words s')"
  using assms
  by (auto simp: resetTest_def Let_def numeral_eq_Suc split: option.splits)

lemma step_counters_ok:
  assumes "counters_ok s" and "step s c = Some s'"
  shows "counters_ok s'"
proof (cases c)
  case (ProcessInput v now)
  with assms show ?thesis
    by (auto simp: counters_ok_def processInput_counters)
next
  case (ProcessKeystroke ch now)
  with assms show ?thesis
    by (auto simp: counters_ok_def processKeystroke_counters)
next
  case (Tick now)
  with assms show ?thesis
    by (auto simp: counters_ok_def tick_history_length)
next
  case (Finish now)
  with assms show ?thesis
    by (auto simp: counters_ok_def)
next
  case (Start now)
  with assms show ?thesis
    by (auto simp: counters_ok_def)
next
  case (ResetTest rnd now)
  with assms have "resetTest s rnd now = Some s'" by simp
  then show ?thesis
    by (simp add: counters_ok_def resetTest_fields)
next
  case (SetMode m rnd now)
  with assms have "resetTest (s\<lparr>mode := m\<rparr>) rnd now = Some s'"
    by (simp add: setMode_def)
  then show ?thesis
    by (simp add: counters_ok_def resetTest_fields)
next
  case (SetTimeLimit sec rnd now)
  with assms have "resetTest (s\<lparr>timeLimit := sec, timeLeft := sec\<rparr>) rnd now = Some s'"
    by (simp add: setTimeLimit_def)
  then show ?thesis
    by (simp add: counters_ok_def resetTest_fields)
next
  case (HistoryIntervalFires now)
  with assms show ?thesis
    by (auto simp: counters_ok_def historyIntervalFires_length)
next
  case (AssignCallbacks a b c d)
  with assms show ?thesis
    by (auto simp: counters_ok_def)
qed

lemma run_counters_ok:
  "counters_ok s \<Longrightarrow> run s cs = Some s' \<Longrightarrow> counters_ok s'"
proof (induction cs arbitrary: s)
  case Nil
  then show ?case by simp
next
  case (Cons c cs)
  then obtain s1 where s1: "step s c = Some s1" and rest: "run s1 cs = Some s'"
    by (auto split: option.splits)
  from Cons.prems(1) s1 have "counters_ok s1"
    by (rule step_counters_ok)
  then show ?case
    using rest by (rule Cons.IH)
qed

lemma constructor_counters_ok:
  "constructor opts loaded rnd now = Some s \<Longrightarrow> counters_ok s"
  by (simp add: constructor_def counters_ok_def resetTest_fields)

lemma constructor_the_engine: "constructor the_options None rnd now = Some (the_engine now)"
  by (simp add: constructor_def the_options_def the_engine_def resetTest_def generateWords_def
      or_default_int_def or_default_str_def str_def shuffleArray_def english_loop.simps
      slice_from_0_def emit_def Let_def numeral_eq_Suc)

subsection \<open>Rounding to binary64\<close>

lemma pow2_powi: "pow2 e = 2 powi e"
  by (simp add: pow2_def power_int_def power_inverse inverse_eq_divide power_one_over)

lemma pow2_pos [simp]: "0 < pow2 e"
  by (simp add: pow2_def)

lemma pow2_diff: "pow2 (a - b) = pow2 a / pow2 b"
  by (simp add: pow2_powi power_int_diff)

lemma pow2_numeral: "pow2 52 = 2 ^ 52"
  by (simp add: pow2_def)

lemma ilog2_lower:
  assumes "0 < x"
  shows "pow2 (ilog2 x) \<le> x"
proof (cases "1 \<le> x")
  case True
  then have pos: "0 < \<lfloor>x\<rfloor>" by simp
  have "(2::int) ^ nat (bitlen \<lfloor>x\<rfloor> - 1) \<le> \<lfloor>x\<rfloor>"
    using bitlen_bounds[OF pos] by simp
  then have "(of_int ((2::int) ^ nat (bitlen \<lfloor>x\<rfloor> - 1)) :: rat) \<le> of_int \<lfloor>x\<rfloor>"
    by (simp only: of_int_le_iff)
  also have "\<dots> \<le> x" by simp
  finally have "(2::rat) ^ nat (bitlen \<lfloor>x\<rfloor> - 1) \<le> x" by simp
  moreover have "1 \<le> bitlen \<lfloor>x\<rfloor>"
    using pos by (simp add: bitlen_ge_iff_power)
  ultimately show ?thesis
    using True by (simp add: ilog2_def pow2_def)
next
  case False
  with assms have x1: "x < 1" by simp
  define m where "m = \<lceil>1 / x\<rceil>"
  have "1 < 1 / x" using assms x1 by simp
  then have m2: "2 \<le> m" unfolding m_def by linarith
  then have pos: "0 < m - 1" by simp
  have "m - 1 < 2 ^ nat (bitlen (m - 1))"
    using bitlen_bounds[OF pos] by simp
  then have "m \<le> 2 ^ nat (bitlen (m - 1))" by simp
  then have "(of_int m :: rat) \<le> of_int (2 ^ nat (bitlen (m - 1)))"
    by (simp only: of_int_le_iff)
  then have mle: "(of_int m :: rat) \<le> 2 ^ nat (bitlen (m - 1))" by simp
  have "1 / x \<le> of_int m" unfolding m_def by simp
  from this mle have "1 / x \<le> 2 ^ nat (bitlen (m - 1))" by (rule order_trans)
  then have "1 / 2 ^ nat (bitlen (m - 1)) \<le> x"
    using assms by (simp add: field_simps)
  moreover have "0 \<le> bitlen (m - 1)" by (rule bitlen_nonneg)
  ultimately show ?thesis
    using x1 by (auto simp: ilog2_def pow2_def m_def)
qed

lemma round_half_even_cases:
  "(round_half_even y = \<lfloor>y\<rfloor> \<and> y - of_int \<lfloor>y\<rfloor> \<le> 1 / 2)
   \<or> (round_half_even y = \<lfloor>y\<rfloor> + 1 \<and> 1 / 2 \<le> y - of_int \<lfloor>y\<rfloor>)"
proof -
  define d where "d = y - of_int \<lfloor>y\<rfloor>"
  have r: "round_half_even y =
      (if d < 1 / 2 then \<lfloor>y\<rfloor> else if 1 / 2 < d then \<lfloor>y\<rfloor> + 1
       else if even \<lfloor>y\<rfloor> then \<lfloor>y\<rfloor> else \<lfloor>y\<rfloor> + 1)"
    by (simp only: round_half_even_def Let_def d_def)
  consider "d < 1 / 2" | "1 / 2 < d" | "d = 1 / 2" by linarith
  then show ?thesis
  proof cases
    case 1
    then show ?thesis unfolding r d_def [symmetric] by simp
  next
    case 2
    then show ?thesis unfolding r d_def [symmetric] by simp
  next
    case 3
    then show ?thesis unfolding r d_def [symmetric] by simp
  qed
qed

lemma round_half_even_bounds:
  "of_int (round_half_even y) \<le> y + 1 / 2" "y - 1 / 2 \<le> of_int (round_half_even y)"
proof -
  have a: "of_int \<lfloor>y\<rfloor> \<le> y" by simp
  have b: "y < of_int \<lfloor>y\<rfloor> + 1" by linarith
  from round_half_even_cases[of y] show "of_int (round_half_even y) \<le> y + 1 / 2"
  proof
    assume "round_half_even y = \<lfloor>y\<rfloor> \<and> y - of_int \<lfloor>y\<rfloor> \<le> 1 / 2"
    then have "of_int (round_half_even y) = (of_int \<lfloor>y\<rfloor> :: rat)" by simp
    with a show ?thesis by linarith
  next
    assume h: "round_half_even y = \<lfloor>y\<rfloor> + 1 \<and> 1 / 2 \<le> y - of_int \<lfloor>y\<rfloor>"
    then have "of_int (round_half_even y) = (of_int \<lfloor>y\<rfloor> :: rat) + 1" by simp
    with h show ?thesis by linarith
  qed
  from round_half_even_cases[of y] show "y - 1 / 2 \<le> of_int (round_half_even y)"
  proof
    assume h: "round_half_even y = \<lfloor>y\<rfloor> \<and> y - of_int \<lfloor>y\<rfloor> \<le> 1 / 2"
    then have "of_int (round_half_even y) = (of_int \<lfloor>y\<rfloor> :: rat)" by simp
    with h show ?thesis by linarith
  next
    assume "round_half_even y = \<lfloor>y\<rfloor> + 1 \<and> 1 / 2 \<le> y - of_int \<lfloor>y\<rfloor>"
    then have "of_int (round_half_even y) = (of_int \<lfloor>y\<rfloor> :: rat) + 1" by simp
    with b show ?thesis by linarith
  qed
qed

lemma round_half_even_of_int [simp]: "round_half_even (of_int k) = k"
  by (simp add: round_half_even_def)

lemma round_double_pos_eq:
  assumes "0 < x"
  shows "round_double x =
    of_int (round_half_even (x / pow2 (ilog2 x - 52))) * pow2 (ilog2 x - 52)"
  using assms by (simp add: round_double_def Let_def)

lemma ulp_le:
  assumes "0 < x"
  shows "pow2 (ilog2 x - 52) \<le> x / 2 ^ 52"
proof -
  have "pow2 (ilog2 x - 52) = pow2 (ilog2 x) / 2 ^ 52"
    by (simp add: pow2_diff pow2_numeral)
  also have "\<dots> \<le> x / 2 ^ 52"
    using ilog2_lower[OF assms] by (simp add: divide_right_mono)
  finally show ?thesis .
qed

lemma round_double_upper:
  assumes "0 < x"
  shows "round_double x \<le> x + x / 2 ^ 53"
proof -
  define u where "u = pow2 (ilog2 x - 52)"
  have upos: "0 < u" by (simp add: u_def)
  have "round_double x = of_int (round_half_even (x / u)) * u"
    using assms by (simp add: round_double_pos_eq u_def)
  also have "\<dots> \<le> (x / u + 1 / 2) * u"
    using upos round_half_even_bounds(1)[of "x / u"] by (simp only: mult_right_mono less_imp_le)
  also have "\<dots> = x + u / 2"
    using upos by (simp add: field_simps)
  also have "\<dots> \<le> x + (x / 2 ^ 52) / 2"
    using ulp_le[OF assms] by (simp add: u_def)
  also have "\<dots> = x + x / 2 ^ 53" by simp
  finally show ?thesis .
qed

lemma round_double_lower:
  assumes "0 < x"
  shows "x - x / 2 ^ 53 \<le> round_double x"
proof -
  define u where "u = pow2 (ilog2 x - 52)"
  have upos: "0 < u" by (simp add: u_def)
  have "x - x / 2 ^ 53 = x - (x / 2 ^ 52) / 2" by simp
  also have "\<dots> \<le> x - u / 2"
    using ulp_le[OF assms] by (simp add: u_def)
  also have "\<dots> = (x / u - 1 / 2) * u"
    using upos by (simp add: field_simps)
  also have "\<dots> \<le> of_int (round_half_even (x / u)) * u"
    using upos round_half_even_bounds(2)[of "x / u"] by (simp only: mult_right_mono less_imp_le)
  also have "\<dots> = round_double x"
    using assms by (simp add: round_double_pos_eq u_def)
  finally show ?thesis .
qed

lemma round_double_of_int:
  assumes "0 \<le> k" and "k < 2 ^ 53"
  shows "round_double (of_int k) = of_int k"
proof (cases "k = 0")
  case True
  then show ?thesis by (simp add: round_double_def)
next
  case False
  with assms have kpos: "0 < k" by simp
  define e where "e = ilog2 (of_int k)"
  have e_eq: "e = bitlen k - 1"
    using kpos by (simp add: e_def ilog2_def)
  have "bitlen k \<le> 53"
    using assms(2) by (simp add: bitlen_le_iff_power)
  with e_eq have e52: "e \<le> 52" by simp
  define j where "j = nat (52 - e)"
  have u: "pow2 (e - 52) = 1 / 2 ^ j"
    using e52 by (cases "e = 52") (simp_all add: pow2_def j_def)
  have "of_int k / pow2 (e - 52) = (of_int (k * 2 ^ j) :: rat)"
    by (simp add: u)
  then have "round_half_even (of_int k / pow2 (e - 52)) = k * 2 ^ j"
    by (simp only: round_half_even_of_int)
  then have "of_int (round_half_even (of_int k / pow2 (e - 52))) * pow2 (e - 52) = (of_int k :: rat)"
    by (simp add: u)
  moreover have "(0::rat) < of_int k" using kpos by simp
  ultimately show ?thesis
    by (simp only: round_double_pos_eq e_def)
qed

lemma Math_random_bounds:
  "0 \<le> Math_random rnd pos" "Math_random rnd pos \<le> (2 ^ 53 - 1) / 2 ^ 53"
proof -
  have "0 \<le> rnd pos mod 2 ^ 53" by simp
  then show "0 \<le> Math_random rnd pos"
    by (simp add: Math_random_def)
  have "rnd pos mod 2 ^ 53 < 2 ^ 53" by simp
  then have "rnd pos mod 2 ^ 53 \<le> 2 ^ 53 - 1" by linarith
  then have "(of_int (rnd pos mod 2 ^ 53) :: rat) \<le> of_int (2 ^ 53 - 1)"
    by (simp only: of_int_le_iff)
  then show "Math_random rnd pos \<le> (2 ^ 53 - 1) / 2 ^ 53"
    by (simp add: Math_random_def divide_right_mono)
qed

lemma random_index_less:
  assumes "0 < n"
  shows "random_index rnd pos n < n"
proof -
  define r where "r = Math_random rnd pos"
  define x where "x = r * of_nat n"
  have r0: "0 \<le> r" and r1: "r \<le> (2 ^ 53 - 1) / 2 ^ 53"
    unfolding r_def by (rule Math_random_bounds)+
  have npos: "(0::rat) < of_nat n" using assms by simp
  have fl: "round_double x < of_nat n"
  proof (cases "x = 0")
    case True
    then show ?thesis using npos by (simp add: round_double_def)
  next
    case False
    have "0 \<le> x" using r0 npos by (simp add: x_def)
    with False have xpos: "0 < x" by simp
    have xle: "x \<le> (2 ^ 53 - 1) / 2 ^ 53 * of_nat n"
      unfolding x_def using r1 npos by (simp only: mult_right_mono less_imp_le)
    have "round_double x \<le> x + x / 2 ^ 53"
      by (rule round_double_upper[OF xpos])
    also have "\<dots> = x * ((2 ^ 53 + 1) / 2 ^ 53)"
      by (simp add: field_simps)
    also have "\<dots> \<le> ((2 ^ 53 - 1) / 2 ^ 53 * of_nat n) * ((2 ^ 53 + 1) / 2 ^ 53)"
      using xle by (rule mult_right_mono) simp
    also have "\<dots> = of_nat n * (((2 ^ 53 - 1) / 2 ^ 53) * ((2 ^ 53 + 1) / 2 ^ 53))"
      by (simp only: mult_ac)
    also have "\<dots> < of_nat n * 1"
      using npos by (intro mult_strict_left_mono) simp_all
    finally show ?thesis by simp
  qed
  have "\<lfloor>round_double x\<rfloor> < int n"
    using fl by (simp add: floor_less_iff)
  then show ?thesis
    using assms by (simp add: random_index_def Math_floor_def js_mul_def x_def r_def)
qed

lemma floor_js_div_1000:
  assumes "0 \<le> a" and "a < 2 ^ 53"
  shows "Math_floor (js_div (of_int a) 1000) = a div 1000"
proof -
  define k where "k = a div 1000"
  define r where "r = a mod 1000"
  have a_eq: "a = 1000 * k + r" by (simp add: k_def r_def)
  have r_bounds: "0 \<le> r" "r < 1000" by (simp_all add: r_def)
  have k_bounds: "0 \<le> k" "k < 2 ^ 53"
    using assms by (simp_all add: k_def div_int_pos_iff)
  define x :: rat where "x = of_int a / 1000"
  show ?thesis
  proof (cases "r = 0")
    case True
    then have "x = of_int k" by (simp add: x_def a_eq)
    then have "round_double x = of_int k"
      using k_bounds by (simp add: round_double_of_int)
    then show ?thesis
      by (simp add: Math_floor_def js_div_def x_def k_def)
  next
    case False
    with r_bounds have rpos: "1 \<le> r" by simp
    have x_eq: "x = of_int k + of_int r / 1000"
      by (simp add: x_def a_eq add_divide_distrib)
    have "(1::rat) \<le> of_int r" using rpos by simp
    then have lo: "of_int k + 1 / 1000 \<le> x"
      by (simp add: x_eq divide_right_mono)
    have "(of_int r :: rat) \<le> 999" using r_bounds by simp
    then have hi: "x \<le> of_int k + 999 / 1000"
      by (simp add: x_eq)
    have "(0::rat) \<le> of_int k" using k_bounds by simp
    with lo have xpos: "0 < x" by linarith
    have "(of_int a :: rat) < 2 ^ 53"
      using assms(2) by (metis of_int_less_iff of_int_numeral of_int_power)
    then have "x < 2 ^ 53 / 1000" by (simp add: x_def)
    then have err: "x / 2 ^ 53 < 1 / 1000" by (simp add: field_simps)
    have "of_int k \<le> round_double x"
      using round_double_lower[OF xpos] lo err by linarith
    moreover have "round_double x < of_int k + 1"
      using round_double_upper[OF xpos] hi err by linarith
    ultimately have "\<lfloor>round_double x\<rfloor> = k"
      by (rule floor_unique)
    then show ?thesis
      by (simp add: Math_floor_def js_div_def x_def k_def)
  qed
qed

subsection \<open>Word generation\<close>

lemma shuffle_loop_length [simp]: "length (shuffle_loop a i rnd pos) = length a"
  by (induction a i rnd pos rule: shuffle_loop.induct) (simp_all add: Let_def)

lemma shuffleArray_length [simp]: "length (shuffleArray arr rnd) = length arr"
  by (simp add: shuffleArray_def)

lemma numbers_loop_length:
  "length (numbers_loop rnd pos i count out) = length out + nat (count - int i)"
proof (induction rnd pos i count out rule: numbers_loop.induct)
  case (1 rnd pos i count out)
  show ?case
  proof (cases "int i < count")
    case True
    then have "numbers_loop rnd pos i count out =
        numbers_loop rnd (pos + 2) (i + 1) count (out @ [number_token rnd pos])"
      by (subst numbers_loop.simps) simp
    with True "1.IH" show ?thesis by simp
  next
    case False
    then have "numbers_loop rnd pos i count out = out"
      by (subst numbers_loop.simps) simp
    with False show ?thesis by simp
  qed
qed

lemma quotes_loop_length:
  "int (length out) \<le> count \<Longrightarrow> length (quotes_loop rnd pos count out) = nat count"
proof (induction rnd pos count out rule: quotes_loop.induct)
  case (1 rnd pos count out)
  define ps where "ps = split_space (sampleQuotes ! random_index rnd pos (length sampleQuotes))"
  show ?case
  proof (cases "int (length out) < count")
    case True
    have eq: "quotes_loop rnd pos count out = quotes_loop rnd (pos + 1) count (push_parts ps out count)"
      using True by (subst quotes_loop.simps) (simp add: ps_def)
    have "int (length (push_parts ps out count)) \<le> count"
      using True by (simp add: push_parts_length)
    then have "length (quotes_loop rnd (pos + 1) count (push_parts ps out count)) = nat count"
      using True "1.IH" by (simp add: ps_def)
    with eq show ?thesis by simp
  next
    case False
    then have "quotes_loop rnd pos count out = out"
      by (subst quotes_loop.simps) simp
    with False "1.prems" show ?thesis by simp
  qed
qed

lemma english_loop_terminates:
  assumes "pool \<noteq> []"
  shows "\<exists>r. english_loop pool count result = Some r \<and> count \<le> int (length r)"
proof (induction "nat (count - int (length result))" arbitrary: result rule: less_induct)
  case less
  show ?case
  proof (cases "int (length result) < count")
    case False
    then show ?thesis
      by (subst english_loop.simps) simp
  next
    case True
    have "0 < length pool" using assms by simp
    with True have "nat (count - int (length (result @ pool))) < nat (count - int (length result))"
      by simp
    then obtain r where "english_loop pool count (result @ pool) = Some r" "count \<le> int (length r)"
      using less by blast
    with True show ?thesis
      by (subst english_loop.simps) simp
  qed
qed

lemma english_loop_Some_pool:
  assumes "english_loop pool count result = Some r"
  shows "pool = [] \<longrightarrow> count \<le> int (length result)"
proof (rule english_loop.raw_induct
    [where P = "\<lambda>pool count result r. pool = [] \<longrightarrow> count \<le> int (length result)",
      OF _ assms])
  fix f :: "js_string list \<Rightarrow> int \<Rightarrow> js_string list \<Rightarrow> js_string list option"
    and pool count result r
  assume IH: "\<And>pool count result r. f pool count result = Some r \<Longrightarrow>
      pool = [] \<longrightarrow> count \<le> int (length result)"
    and eq: "(if int (length result) < count then f pool count (result @ pool) else Some result)
      = Some r"
  show "pool = [] \<longrightarrow> count \<le> int (length result)"
  proof (cases "int (length result) < count")
    case True
    with eq have "f pool count (result @ pool) = Some r" by simp
    then have "pool = [] \<longrightarrow> count \<le> int (length (result @ pool))" by (rule IH)
    then show ?thesis by auto
  next
    case False
    then show ?thesis by simp
  qed
qed

lemma english_loop_empty_pool:
  "english_loop [] count result = Some r \<Longrightarrow> count \<le> int (length result)"
  using english_loop_Some_pool by blast

lemma english_loop_diverges:
  assumes "int (length result) < count"
  shows "english_loop [] count result = None"
proof (cases "english_loop [] count result")
  case None
  then show ?thesis .
next
  case (Some r)
  then have "count \<le> int (length result)" by (rule english_loop_empty_pool)
  with assms show ?thesis by simp
qed

text \<open>
  The index drawn for a quote and the index drawn for a swap of the shuffle are always in
  range: the lookups of the loops never read past the end of their array.
\<close>

lemma quote_index_in_range:
  "random_index rnd pos (length sampleQuotes) < length sampleQuotes"
  by (rule random_index_less) (simp add: sampleQuotes_def)

lemma shuffle_index_in_range: "random_index rnd pos (Suc i + 1) \<le> Suc i"
  using random_index_less[of "Suc i + 1" rnd pos] by simp

lemma mode_names_distinct [simp]:
  "str ''numbers'' \<noteq> str ''quotes''" "str ''english'' \<noteq> str ''numbers''"
  "str ''english'' \<noteq> str ''quotes''" "str ''quotes'' \<noteq> str ''numbers''"
  "str ''numbers'' \<noteq> str ''english''" "str ''quotes'' \<noteq> str ''english''"
  by (simp_all add: str_def)

lemma generateWords_numbers:
  "generateWords (str ''numbers'') pool count rnd = Some (numbers_loop rnd 0 0 count [])"
  by (simp add: generateWords_def)

lemma generateWords_quotes:
  "generateWords (str ''quotes'') pool count rnd = Some (quotes_loop rnd 0 count [])"
  by (simp add: generateWords_def)

lemma generateWords_total:
  assumes "0 \<le> count" and "md = str ''numbers'' \<or> md = str ''quotes'' \<or> pool \<noteq> []"
  shows "\<exists>ws. generateWords md pool count rnd = Some ws \<and> int (length ws) = count"
proof -
  consider "md = str ''numbers''" | "md = str ''quotes''"
    | "md \<noteq> str ''numbers''" "md \<noteq> str ''quotes''" "pool \<noteq> []"
    using assms(2) by blast
  then show ?thesis
  proof cases
    case 1
    then show ?thesis
      using assms(1) by (simp add: generateWords_numbers numbers_loop_length)
  next
    case 2
    then show ?thesis
      using assms(1) by (simp add: generateWords_quotes quotes_loop_length)
  next
    case 3
    have "shuffleArray pool rnd \<noteq> []"
      using 3(3) by (metis length_0_conv shuffleArray_length)
    then obtain r where r: "english_loop (shuffleArray pool rnd) count [] = Some r"
        "count \<le> int (length r)"
      using english_loop_terminates by blast
    have "int (length (slice_from_0 r count)) = count"
      using assms(1) r(2) by (simp add: slice_from_0_def)
    with 3 r(1) show ?thesis
      by (simp add: generateWords_def)
  qed
qed

lemma generateWords_diverges:
  assumes "1 \<le> count" and "md \<noteq> str ''numbers''" and "md \<noteq> str ''quotes''"
  shows "generateWords md [] count rnd = None"
proof -
  have "shuffleArray ([] :: js_string list) rnd = []"
    by (simp add: shuffleArray_def)
  moreover have "english_loop [] count [] = None"
    using assms(1) by (intro english_loop_diverges) simp
  ultimately show ?thesis
    using assms(2,3) by (simp add: generateWords_def)
qed

lemma resetTest_total:
  assumes "generateWords (mode s) (wordsPool s) (seedSize s) rnd = Some ws"
  shows "\<exists>s'. resetTest s rnd now = Some s' \<and> words s' = ws"
  using assms by (simp add: resetTest_def Let_def)

lemma resetTest_diverges:
  assumes "generateWords (mode s) (wordsPool s) (seedSize s) rnd = None"
  shows "resetTest s rnd now = None"
  using assms by (simp add: resetTest_def)

lemma english_loop_the: "english_loop [str ''the''] 1 [] = Some [str ''the'']"
  by (simp add: english_loop.simps)

lemma random_index_zero: "random_index zero_rng pos n = 0"
  by (simp add: random_index_def Math_random_def zero_rng_def js_mul_def round_double_def
      Math_floor_def)

lemma generateWords_english_the:
  "generateWords (str ''english'') [str ''the''] 1 zero_rng = Some [str ''the'']"
  by (simp add: generateWords_def shuffleArray_def english_loop_the slice_from_0_def)

lemma quotes_first_To: "quotes_loop zero_rng 0 1 [] = [str ''To'']"
proof -
  have "split_space (sampleQuotes ! 0) = map str [''To'', ''be'', ''or'', ''not'', ''to'', ''be'']"
    by (simp add: sampleQuotes_def str_def SPACE_def)
  then have "push_parts (split_space (sampleQuotes ! 0)) [] 1 = [str ''To'']"
    by simp
  then have "quotes_loop zero_rng 0 1 [] = quotes_loop zero_rng 1 1 [str ''To'']"
    by (subst quotes_loop.simps) (simp add: random_index_zero)
  also have "\<dots> = [str ''To'']"
    by (subst quotes_loop.simps) simp
  finally show ?thesis .
qed

lemma generateWords_quotes_To:
  "generateWords (str ''quotes'') pool 1 zero_rng = Some [str ''To'']"
  by (simp add: generateWords_quotes quotes_first_To)

lemma resetTest_the_engine: "resetTest (the_engine 0) zero_rng 5 = Some (the_engine 5)"
proof -
  have "generateWords (mode (the_engine 0)) (wordsPool (the_engine 0)) (seedSize (the_engine 0))
      zero_rng = Some [str ''the'']"
    by (simp add: the_engine_def generateWords_english_the)
  then show ?thesis
    by (simp add: resetTest_def the_engine_def emit_def Let_def numeral_eq_Suc)
qed

lemma the_options_fields:
  "or_default_int (opt_seedSize the_options) 200 = 1" "opt_mode the_options = None"
  by (simp_all add: the_options_def or_default_int_def)

lemma the_options_limits:
  "opt_timeLimit the_options = None" "opt_seedSize the_options = Some 1"
  by (simp_all add: the_options_def)

subsection \<open>Keystrokes\<close>

lemma char_not_Backspace [simp]: "[c] \<noteq> str ''Backspace''"
  by (simp add: str_def)

lemma processKeystroke_char:
  assumes "\<not> finished s" and "c \<noteq> SPACE"
  shows "currentInput (processKeystroke s [c] now) = currentInput s @ [c]"
    and "typedChars (processKeystroke s [c] now) = typedChars s + 1"
    and "\<not> finished (processKeystroke s [c] now)"
  using assms by (simp_all add: processKeystroke_def Let_def)

lemma type_keys_chars:
  assumes "\<not> finished s" and "\<forall>k \<in> set ks. fst k \<noteq> SPACE"
  shows "currentInput (type_keys s ks) = currentInput s @ map fst ks
    \<and> typedChars (type_keys s ks) = typedChars s + length ks
    \<and> \<not> finished (type_keys s ks)"
  using assms
proof (induction ks arbitrary: s)
  case Nil
  then show ?case by simp
next
  case (Cons k ks)
  obtain c now where k: "k = (c, now)" by (cases k)
  with Cons.prems have c: "c \<noteq> SPACE" and rest: "\<forall>k \<in> set ks. fst k \<noteq> SPACE"
    by simp_all
  note step = processKeystroke_char[OF Cons.prems(1) c, of now]
  from Cons.IH[OF step(3) rest] step(1,2) show ?case
    by (simp add: k)
qed

lemma processKeystroke_separator_eq:
  assumes "\<not> finished s"
  shows "processKeystroke s [SPACE] now =
    processInput ((if started s then s else start s now)
        \<lparr>currentInput := currentInput s @ [SPACE], typedChars := typedChars s + 1\<rparr>)
      (currentInput s @ [SPACE]) now"
proof -
  have "[SPACE] \<noteq> str ''Backspace''" by simp
  with assms show ?thesis
    by (simp add: processKeystroke_def Let_def)
qed

lemma endsWith_space_snoc [simp]: "endsWith_space (v @ [SPACE])"
  by (simp add: endsWith_space_def)

lemma processInput_commit_typedChars:
  assumes "\<not> finished s" and "endsWith_space v"
  shows "typedChars (processInput s v now) = typedChars s + (length (trim v) + 1)"
  using assms by (simp add: processInput_def Let_def spaceCountsAsChar_def)

lemma processKeystroke_separator_typedChars:
  assumes "\<not> finished s"
  shows "typedChars (processKeystroke s [SPACE] now) =
    typedChars s + 1 + (length (trim (currentInput s @ [SPACE])) + 1)"
proof -
  define s1 where "s1 = (if started s then s else start s now)
        \<lparr>currentInput := currentInput s @ [SPACE], typedChars := typedChars s + 1\<rparr>"
  have "\<not> finished s1" using assms by (simp add: s1_def)
  then have "typedChars (processInput s1 (currentInput s @ [SPACE]) now) =
      typedChars s1 + (length (trim (currentInput s @ [SPACE])) + 1)"
    by (rule processInput_commit_typedChars) simp
  moreover have "typedChars s1 = typedChars s + 1" by (simp add: s1_def)
  ultimately show ?thesis
    using processKeystroke_separator_eq[OF assms, of now] by (simp add: s1_def)
qed

lemma is_whitespace_SPACE [simp]: "is_whitespace SPACE"
  by (simp add: is_whitespace_def SPACE_def)

lemma trim_word_space:
  assumes "\<forall>c \<in> set w. \<not> is_whitespace c"
  shows "trim (w @ [SPACE]) = w"
proof (cases w rule: rev_cases)
  case Nil
  then show ?thesis by (simp add: trim_def)
next
  case (snoc ys y)
  with assms have all: "\<forall>c \<in> set (ys @ [y]). \<not> is_whitespace c" by simp
  then have front: "dropWhile is_whitespace ((ys @ [y]) @ [SPACE]) = (ys @ [y]) @ [SPACE]"
    by (cases ys) simp_all
  from all have "\<not> is_whitespace y" by simp
  then have "dropWhile is_whitespace (rev ((ys @ [y]) @ [SPACE])) = y # rev ys"
    by simp
  with front show ?thesis
    by (simp add: trim_def snoc)
qed

lemma the_engine_fields [simp]:
  "\<not> finished (the_engine now)" "currentInput (the_engine now) = []"
  "typedChars (the_engine now) = 0" "correctChars (the_engine now) = 0"
  "\<not> started (the_engine now)"
  by (simp_all add: the_engine_def)

lemma the_keys_facts:
  "\<forall>k \<in> set the_keys. \<not> is_whitespace (fst k)" "\<forall>k \<in> set the_keys. fst k \<noteq> SPACE"
  "length the_keys = 3" "map fst the_keys = str ''the''"
  by (simp_all add: the_keys_def str_def is_whitespace_def SPACE_def)

lemma trim_examples:
  "trim [SPACE] = []" "trim (str ''the '') = str ''the''" "str ''the'' @ [SPACE] = str ''the ''"
  "length (str ''the'') = 3"
  by (simp_all add: trim_def str_def is_whitespace_def SPACE_def)

subsection \<open>Resetting\<close>

lemma english_loop_nonpositive:
  "count \<le> 0 \<Longrightarrow> english_loop pool count [] = Some []"
  by (subst english_loop.simps) simp

lemma generateWords_returns:
  assumes "md = str ''numbers'' \<or> md = str ''quotes'' \<or> pool \<noteq> [] \<or> count \<le> 0"
  shows "\<exists>ws. generateWords md pool count rnd = Some ws"
proof (cases "md = str ''numbers'' \<or> md = str ''quotes''")
  case True
  then show ?thesis
    by (auto simp: generateWords_numbers generateWords_quotes)
next
  case False
  with assms have pc: "pool \<noteq> [] \<or> count \<le> 0" by blast
  have "\<exists>r. english_loop (shuffleArray pool rnd) count [] = Some r"
  proof (cases "pool = []")
    case True
    with pc have "count \<le> 0" by simp
    then show ?thesis by (simp add: english_loop_nonpositive)
  next
    case False
    then have "shuffleArray pool rnd \<noteq> []"
      by (metis length_0_conv shuffleArray_length)
    then show ?thesis
      using english_loop_terminates by blast
  qed
  with False show ?thesis
    by (auto simp: generateWords_def)
qed

lemma resetTest_returns:
  assumes "mode s = str ''numbers'' \<or> mode s = str ''quotes'' \<or> wordsPool s \<noteq> []
      \<or> seedSize s \<le> 0"
  shows "\<exists>s'. resetTest s rnd now = Some s'"
proof -
  obtain ws where "generateWords (mode s) (wordsPool s) (seedSize s) rnd = Some ws"
    using generateWords_returns[OF assms] by blast
  then show ?thesis
    using resetTest_total by blast
qed

lemma resetTest_never_returns:
  assumes "mode s \<noteq> str ''numbers''" and "mode s \<noteq> str ''quotes''" and "wordsPool s = []"
    and "1 \<le> seedSize s"
  shows "resetTest s rnd now = None"
  using assms by (simp add: resetTest_diverges generateWords_diverges)

lemma round_double_pos:
  assumes "0 < x"
  shows "0 < round_double x"
proof -
  have "0 < x - x / 2 ^ 53"
    using assms by (simp add: field_simps)
  with round_double_lower[OF assms] show ?thesis by linarith
qed

lemma number_token_zero: "number_token zero_rng pos = str ''0''"
proof -
  have r: "Math_random zero_rng pos = 0"
    by (simp add: Math_random_def zero_rng_def)
  have "(0::rat) < round_double (8 / 10)" "(0::rat) < round_double (5 / 10)"
    by (rule round_double_pos, simp)+
  then show ?thesis
    by (simp add: number_token_def r random_index_zero String_of_nat.simps str_def)
qed

lemma constructor_numbers_engine:
  "constructor numbers_options None zero_rng 0 = Some numbers_engine"
proof -
  have "numbers_loop zero_rng 0 0 1 [] = [str ''0'']"
    by (simp add: numbers_loop.simps number_token_zero)
  then show ?thesis
    by (simp add: constructor_def numbers_options_def numbers_engine_def the_engine_def
        resetTest_def generateWords_numbers or_default_int_def or_default_str_def
        emit_def Let_def numeral_eq_Suc)
      (simp add: str_def)
qed

lemma mid_run_engine_fields:
  "started mid_run_engine" "typedChars mid_run_engine = 2" "wordsPool mid_run_engine = [str ''the'']"
  "seedSize mid_run_engine = 1" "mode mid_run_engine = str ''english''"
  "currentInput mid_run_engine = str ''th''" "timeLimit mid_run_engine = 60"
  by (simp_all add: mid_run_engine_def processInput_def the_engine_def start_def emit_def
      endsWith_space_def Let_def)
    (simp_all add: str_def SPACE_def)

lemma numbers_engine_fields:
  "mode numbers_engine = str ''numbers''" "wordsPool numbers_engine = []"
  "seedSize numbers_engine = 1" "timeLimit numbers_engine = 60"
  by (simp_all add: numbers_engine_def the_engine_def)

lemma constructor_negative_options:
  "constructor negative_options None zero_rng 0 =
     Some ((the_engine 0)\<lparr>timeLimit := - 5, seedSize := - 3, words := [], timeLeft := - 5\<rparr>)"
proof -
  have "generateWords (str ''english'') [str ''the''] (- 3) zero_rng = Some []"
    by (simp add: generateWords_def english_loop_nonpositive slice_from_0_def)
  then show ?thesis
    by (simp add: constructor_def negative_options_def the_engine_def resetTest_def
        or_default_int_def or_default_str_def emit_def Let_def numeral_eq_Suc)
qed

lemma setTimeLimit_the_engine_zero:
  "setTimeLimit (the_engine 0) 0 zero_rng now =
     Some ((the_engine now)\<lparr>timeLimit := 0, timeLeft := 0\<rparr>)"
proof -
  have "generateWords (str ''english'') [str ''the''] 1 zero_rng = Some [str ''the'']"
    by (rule generateWords_english_the)
  then show ?thesis
    by (simp add: setTimeLimit_def the_engine_def resetTest_def emit_def Let_def numeral_eq_Suc)
qed

subsection \<open>Rounding in the metrics\<close>

lemma round_double_rel:
  assumes "0 < x"
  shows "x * ((2 ^ 53 - 1) / 2 ^ 53) \<le> round_double x"
    and "round_double x \<le> x * ((2 ^ 53 + 1) / 2 ^ 53)"
proof -
  have "x * ((2 ^ 53 - 1) / 2 ^ 53) = x - x / 2 ^ 53"
    by (simp add: field_simps)
  then show "x * ((2 ^ 53 - 1) / 2 ^ 53) \<le> round_double x"
    using round_double_lower[OF assms] by simp
  have "x * ((2 ^ 53 + 1) / 2 ^ 53) = x + x / 2 ^ 53"
    by (simp add: field_simps)
  then show "round_double x \<le> x * ((2 ^ 53 + 1) / 2 ^ 53)"
    using round_double_upper[OF assms] by simp
qed

lemma floor_of_approx:
  fixes n d :: int and v :: rat
  assumes d: "0 < d" and r: "n mod d \<noteq> 0"
    and lo: "of_int n / of_int d - 1 / of_int d < v"
    and hi: "v < of_int n / of_int d + 1 / of_int d"
  shows "\<lfloor>v\<rfloor> = n div d"
proof -
  define N where "N = n div d"
  define k where "k = n mod d"
  have n: "n = d * N + k" by (simp add: N_def k_def)
  have "0 \<le> k" "k < d" "k \<noteq> 0"
    using d r by (simp_all add: k_def)
  then have k1: "1 \<le> k" and k2: "k \<le> d - 1"
    by linarith+
  have dpos: "(0::rat) < of_int d" using d by simp
  have frac: "(of_int n :: rat) / of_int d = of_int N + of_int k / of_int d"
    using dpos by (simp add: n field_simps)
  have "(1::rat) \<le> of_int k" using k1 by simp
  then have a: "(1::rat) / of_int d \<le> of_int k / of_int d"
    using dpos by (simp add: divide_right_mono)
  have "(of_int k :: rat) \<le> of_int d - 1" using k2 by (metis of_int_1 of_int_diff of_int_le_iff)
  then have "(of_int k :: rat) / of_int d \<le> (of_int d - 1) / of_int d"
    using dpos by (simp add: divide_right_mono)
  also have "\<dots> = 1 - 1 / of_int d"
    using dpos by (simp add: field_simps)
  finally have b: "(of_int k :: rat) / of_int d + 1 / of_int d \<le> 1" by simp
  have "of_int N \<le> v" using lo frac a by linarith
  moreover have "v < of_int N + 1" using hi frac b by linarith
  ultimately show ?thesis
    unfolding N_def [symmetric] by (rule floor_unique)
qed

text \<open>Three roundings, as in \<open>(x / p) / (y / q)\<close>.\<close>

lemma quotient_of_rounded:
  fixes A B a b v :: rat
  assumes A: "0 < A" and B: "0 < B"
    and a: "A * ((2 ^ 53 - 1) / 2 ^ 53) \<le> a" "a \<le> A * ((2 ^ 53 + 1) / 2 ^ 53)"
    and b: "B * ((2 ^ 53 - 1) / 2 ^ 53) \<le> b" "b \<le> B * ((2 ^ 53 + 1) / 2 ^ 53)"
    and v: "a / b * ((2 ^ 53 - 1) / 2 ^ 53) \<le> v" "v \<le> a / b * ((2 ^ 53 + 1) / 2 ^ 53)"
  shows "A / B - 4 / 2 ^ 53 * (A / B) \<le> v" and "v \<le> A / B + 4 / 2 ^ 53 * (A / B)"
proof -
  define lo :: rat where "lo = (2 ^ 53 - 1) / 2 ^ 53"
  define hi :: rat where "hi = (2 ^ 53 + 1) / 2 ^ 53"
  have lo_pos: "0 < lo" and hi_pos: "0 < hi" by (simp_all add: lo_def hi_def)
  have k_hi: "hi * hi / lo \<le> 1 + 4 / 2 ^ 53" by (simp add: lo_def hi_def)
  have k_lo: "1 - 4 / 2 ^ 53 \<le> lo * lo / hi" by (simp add: lo_def hi_def)
  have V: "0 < A / B" using A B by simp
  have a_pos: "0 < a"
    using a(1) A lo_pos by (metis lo_def less_le_trans mult_pos_pos)
  have b_pos: "0 < b"
    using b(1) B lo_pos by (metis lo_def less_le_trans mult_pos_pos)
  have Blo: "0 < B * lo" using B lo_pos by simp
  have q_hi: "a / b \<le> (A * hi) / (B * lo)"
    using a(2) b(1) a_pos Blo by (intro frac_le) (simp_all add: lo_def hi_def)
  have q_lo: "(A * lo) / (B * hi) \<le> a / b"
    using a(1) b(2) A lo_pos b_pos by (intro frac_le) (simp_all add: lo_def hi_def)
  have "v \<le> a / b * hi" using v(2) by (simp add: hi_def)
  also have "\<dots> \<le> (A * hi) / (B * lo) * hi"
    using q_hi hi_pos by (intro mult_right_mono) simp_all
  also have "\<dots> = A / B * (hi * hi / lo)"
    by simp
  also have "\<dots> \<le> A / B * (1 + 4 / 2 ^ 53)"
    using k_hi V by (simp only: mult_left_mono less_imp_le)
  finally show "v \<le> A / B + 4 / 2 ^ 53 * (A / B)"
    by (simp add: algebra_simps)
  have "A / B * (1 - 4 / 2 ^ 53) \<le> A / B * (lo * lo / hi)"
    using k_lo V by (simp only: mult_left_mono less_imp_le)
  also have "\<dots> = (A * lo) / (B * hi) * lo"
    by simp
  also have "\<dots> \<le> a / b * lo"
    using q_lo lo_pos by (intro mult_right_mono) simp_all
  also have "\<dots> \<le> v" using v(1) by (simp add: lo_def)
  finally show "A / B - 4 / 2 ^ 53 * (A / B) \<le> v"
    by (simp add: algebra_simps)
qed

lemma product_of_rounded:
  fixes A a k v :: rat
  assumes A: "0 < A" and k: "0 < k"
    and a: "A * ((2 ^ 53 - 1) / 2 ^ 53) \<le> a" "a \<le> A * ((2 ^ 53 + 1) / 2 ^ 53)"
    and v: "a * k * ((2 ^ 53 - 1) / 2 ^ 53) \<le> v" "v \<le> a * k * ((2 ^ 53 + 1) / 2 ^ 53)"
  shows "A * k - 3 / 2 ^ 53 * (A * k) \<le> v" and "v \<le> A * k + 3 / 2 ^ 53 * (A * k)"
proof -
  define lo :: rat where "lo = (2 ^ 53 - 1) / 2 ^ 53"
  define hi :: rat where "hi = (2 ^ 53 + 1) / 2 ^ 53"
  have lo_pos: "0 < lo" and hi_pos: "0 < hi" by (simp_all add: lo_def hi_def)
  have k_hi: "hi * hi \<le> 1 + 3 / 2 ^ 53" by (simp add: hi_def)
  have k_lo: "1 - 3 / 2 ^ 53 \<le> lo * lo" by (simp add: lo_def)
  have V: "0 < A * k" using A k by simp
  have "v \<le> a * k * hi" using v(2) by (simp add: hi_def)
  also have "\<dots> \<le> (A * hi) * k * hi"
    using a(2) k hi_pos by (intro mult_right_mono) (simp_all add: hi_def)
  also have "\<dots> = A * k * (hi * hi)" by simp
  also have "\<dots> \<le> A * k * (1 + 3 / 2 ^ 53)"
    using k_hi V by (simp only: mult_left_mono less_imp_le)
  finally show "v \<le> A * k + 3 / 2 ^ 53 * (A * k)"
    by (simp add: algebra_simps)
  have "A * k * (1 - 3 / 2 ^ 53) \<le> A * k * (lo * lo)"
    using k_lo V by (simp only: mult_left_mono less_imp_le)
  also have "\<dots> = (A * lo) * k * lo" by simp
  also have "\<dots> \<le> a * k * lo"
    using a(1) k lo_pos by (intro mult_right_mono) (simp_all add: lo_def)
  also have "\<dots> \<le> v" using v(1) by (simp add: lo_def)
  finally show "A * k - 3 / 2 ^ 53 * (A * k) \<le> v"
    by (simp add: algebra_simps)
qed

lemma round_double_0 [simp]: "round_double 0 = 0"
  by (simp add: round_double_def)

lemma Math_round_0 [simp]: "Math_round 0 = 0"
proof -
  have "\<lfloor>(1::rat) / 2\<rfloor> = 0"
    by (rule floor_unique) simp_all
  then show ?thesis
    by (simp add: Math_round_def)
qed

lemma wpm_rounding:
  fixes c :: nat and e :: int
  assumes e: "0 < e" and c: "96 * int c < 2 ^ 53"
    and tie: "(24 * int c + e) mod (2 * e) \<noteq> 0"
  shows "Math_round (js_div (js_div (of_nat c) 5) (js_div (of_int e) 60)) =
    (24 * int c + e) div (2 * e)"
proof (cases "c = 0")
  case True
  have "e div (2 * e) = 0" using e by simp
  with True show ?thesis
    by (simp add: js_div_def)
next
  case False
  define A :: rat where "A = of_nat c / 5"
  define B :: rat where "B = of_int e / 60"
  define a where "a = round_double A"
  define b where "b = round_double B"
  define v where "v = round_double (a / b)"
  have A: "0 < A" using False by (simp add: A_def)
  have B: "0 < B" using e by (simp add: B_def)
  note ra = round_double_rel[OF A, folded a_def]
  note rb = round_double_rel[OF B, folded b_def]
  have "0 < a" "0 < b"
    using round_double_pos[OF A] round_double_pos[OF B] by (simp_all add: a_def b_def)
  then have q: "0 < a / b" by simp
  note rv = round_double_rel[OF q, folded v_def]
  note bounds = quotient_of_rounded[OF A B ra rb rv]
  have epos: "(0::rat) < of_int e" using e by simp
  have V: "A / B = 12 * of_nat c / of_int e"
    by (simp add: A_def B_def)
  have "(96 * of_int (int c) :: rat) < 2 ^ 53"
    using c by (metis of_int_less_iff of_int_mult of_int_numeral of_int_power)
  then have c': "(96 * of_nat c :: rat) < 2 ^ 53" by simp
  have "4 / 2 ^ 53 * (A / B) = (96 * of_nat c / 2 ^ 53) * (1 / (2 * of_int e))"
    by (simp add: V)
  also have "\<dots> < 1 * (1 / (2 * of_int e))"
    using c' epos by (intro mult_strict_right_mono) simp_all
  finally have err: "4 / 2 ^ 53 * (A / B) < 1 / (2 * of_int e)" by simp
  have nd: "(of_int (24 * int c + e) :: rat) / of_int (2 * e) = A / B + 1 / 2"
    using epos by (simp add: V field_simps)
  have d1: "(1::rat) / of_int (2 * e) = 1 / (2 * of_int e)" by simp
  have "\<lfloor>v + 1 / 2\<rfloor> = (24 * int c + e) div (2 * e)"
  proof (rule floor_of_approx)
    show "0 < 2 * e" using e by simp
    show "(24 * int c + e) mod (2 * e) \<noteq> 0" by (rule tie)
    show "of_int (24 * int c + e) / of_int (2 * e) - 1 / of_int (2 * e) < v + 1 / 2"
      unfolding nd d1 using bounds(1) err by linarith
    show "v + 1 / 2 < of_int (24 * int c + e) / of_int (2 * e) + 1 / of_int (2 * e)"
      unfolding nd d1 using bounds(2) err by linarith
  qed
  then show ?thesis
    by (simp add: Math_round_def js_div_def v_def a_def b_def A_def B_def)
qed

lemma accuracy_rounding:
  fixes c t :: nat
  assumes t: "0 < t" and c: "600 * int c < 2 ^ 53"
    and tie: "(200 * int c + int t) mod (2 * int t) \<noteq> 0"
  shows "Math_round (js_mul (js_div (of_nat c) (of_nat t)) 100) =
    (200 * int c + int t) div (2 * int t)"
proof (cases "c = 0")
  case True
  have "int t div (2 * int t) = 0" using t by simp
  with True show ?thesis
    by (simp add: js_div_def js_mul_def)
next
  case False
  define A :: rat where "A = of_nat c / of_nat t"
  define a where "a = round_double A"
  define v where "v = round_double (a * 100)"
  have A: "0 < A" using False t by (simp add: A_def)
  note ra = round_double_rel[OF A, folded a_def]
  have "0 < a" using round_double_pos[OF A] by (simp add: a_def)
  then have p: "0 < a * 100" by simp
  note rv = round_double_rel[OF p, folded v_def]
  have k: "(0::rat) < 100" by simp
  note bounds = product_of_rounded[OF A k ra rv]
  have tpos: "(0::rat) < of_nat t" using t by simp
  have "(600 * of_int (int c) :: rat) < 2 ^ 53"
    using c by (metis of_int_less_iff of_int_mult of_int_numeral of_int_power)
  then have c': "(600 * of_nat c :: rat) < 2 ^ 53" by simp
  have "3 / 2 ^ 53 * (A * 100) = (600 * of_nat c / 2 ^ 53) * (1 / (2 * of_nat t))"
    by (simp add: A_def)
  also have "\<dots> < 1 * (1 / (2 * of_nat t))"
    using c' tpos by (intro mult_strict_right_mono) simp_all
  finally have err: "3 / 2 ^ 53 * (A * 100) < 1 / (2 * of_nat t)" by simp
  have nd: "(of_int (200 * int c + int t) :: rat) / of_int (2 * int t) = A * 100 + 1 / 2"
    using tpos by (simp add: A_def field_simps)
  have d1: "(1::rat) / of_int (2 * int t) = 1 / (2 * of_nat t)" by simp
  have "\<lfloor>v + 1 / 2\<rfloor> = (200 * int c + int t) div (2 * int t)"
  proof (rule floor_of_approx)
    show "0 < 2 * int t" using t by simp
    show "(200 * int c + int t) mod (2 * int t) \<noteq> 0" by (rule tie)
    show "of_int (200 * int c + int t) / of_int (2 * int t) - 1 / of_int (2 * int t)
        < v + 1 / 2"
      unfolding nd d1 using bounds(1) err by linarith
    show "v + 1 / 2 < of_int (200 * int c + int t) / of_int (2 * int t)
        + 1 / of_int (2 * int t)"
      unfolding nd d1 using bounds(2) err by linarith
  qed
  then show ?thesis
    by (simp add: Math_round_def js_div_def js_mul_def v_def a_def A_def)
qed

text \<open>
  On an exact tie the three roundings can leave the quotient just below the half: 41 correct
  characters in 8 seconds are \<open>61.5\<close> words per minute, the quotient computed in binary64 is
  \<open>61.49999999999999\<close>, and \<open>Math.round\<close> gives 61; likewise 23 of 40 characters are
  \<open>57.5\<close> percent and \<open>Math.round\<close> gives 57.
\<close>

lemma wpm_tie_example:
  "Math_round (js_div (js_div 41 5) (js_div 8 60)) = 61"
  by code_simp

lemma accuracy_tie_example:
  "Math_round (js_mul (js_div 23 40) 100) = 57"
  by code_simp

lemma wpm_spec_example:
  "Math_round (js_div (js_div 250 5) (js_div 30 60)) = 100"
  by code_simp

subsection \<open>Metrics\<close>

lemma or_zero_id [simp]: "or_zero r = r"
  by (simp add: or_zero_def)

lemma getElapsedSeconds_not_started:
  "startedAt s = None \<Longrightarrow> getElapsedSeconds s now = 0"
  by (simp add: getElapsedSeconds_def truthy_def)

lemma getElapsedSeconds_running:
  assumes "startedAt s = Some t0" and "endedAt s = None" and "0 < t0" and "t0 \<le> now"
    and "now - t0 < 2 ^ 53"
  shows "getElapsedSeconds s now = (now - t0) div 1000"
proof -
  have "Math_floor (js_div (of_int (now - t0)) 1000) = (now - t0) div 1000"
    using assms by (intro floor_js_div_1000) simp_all
  with assms show ?thesis
    by (simp add: getElapsedSeconds_def truthy_def num_def del: of_int_diff)
qed

lemma getElapsedSeconds_ended:
  assumes "startedAt s = Some t0" and "endedAt s = Some t1" and "0 < t0" and "t0 \<le> t1"
    and "t1 - t0 < 2 ^ 53"
  shows "getElapsedSeconds s now = (t1 - t0) div 1000"
proof -
  have "Math_floor (js_div (of_int (t1 - t0)) 1000) = (t1 - t0) div 1000"
    using assms by (intro floor_js_div_1000) simp_all
  with assms show ?thesis
    by (simp add: getElapsedSeconds_def truthy_def num_def del: of_int_diff)
qed

lemma getWPM_eq:
  "getWPM s now =
     (if getElapsedSeconds s now \<le> 0 then 0
      else Math_round (js_div (js_div (of_nat (correctChars s)) 5)
                               (js_div (of_int (getElapsedSeconds s now)) 60)))"
  by (simp add: getWPM_def Let_def)

lemma getAccuracy_eq:
  "getAccuracy s =
     (if typedChars s = 0 then 100
      else Math_round (js_mul (js_div (of_nat (correctChars s)) (of_nat (typedChars s))) 100))"
  by (simp add: getAccuracy_def)

lemma half_minute_engine_fields:
  "startedAt half_minute_engine = Some 1000" "endedAt half_minute_engine = None"
  "correctChars half_minute_engine = 250" "typedChars half_minute_engine = 250"
  "timeLimit half_minute_engine = 60"
  by (simp_all add: half_minute_engine_def the_engine_def)

lemma half_minute_elapsed: "getElapsedSeconds half_minute_engine 31000 = 30"
  using getElapsedSeconds_running[of half_minute_engine 1000 31000]
  by (simp add: half_minute_engine_fields)

lemma half_minute_finish:
  "startedAt (finish half_minute_engine 31000) = Some 1000"
  "endedAt (finish half_minute_engine 31000) = Some 31000"
  "correctChars (finish half_minute_engine 31000) = 250"
  by (simp_all add: finish_def Let_def emit_def half_minute_engine_def the_engine_def)

lemma teh_counters:
  "typedChars (processInput (the_engine 0) (str ''teh '') 1000) = 4"
  "correctChars (processInput (the_engine 0) (str ''teh '') 1000) = 1"
proof -
  have t: "trim (str ''teh '') = str ''teh''" "endsWith_space (str ''teh '')"
      "length (str ''teh'') = 3"
    by (simp_all add: trim_def str_def is_whitespace_def endsWith_space_def SPACE_def)
  have w: "getCurrentWord (the_engine 0) = str ''the''"
    by (simp add: getCurrentWord_def the_engine_def)
  have ne: "str ''teh'' \<noteq> str ''the''" by (simp add: str_def)
  have c: "count_correct (str ''teh'') (str ''the'') 0 0 = 1"
    by (simp add: count_correct.simps str_def)
  have nf: "\<not> finished (the_engine 0)" by simp
  show "typedChars (processInput (the_engine 0) (str ''teh '') 1000) = 4"
    using processInput_commit_typedChars[OF nf t(2), of 1000] by (simp add: t)
  show "correctChars (processInput (the_engine 0) (str ''teh '') 1000) = 1"
    using ne c by (simp add: processInput_def Let_def t w spaceCountsAsChar_def)
qed

subsection \<open>The metrics against the exact formulas\<close>

lemma spec_wpm_div:
  assumes "0 < e"
  shows "spec_wpm c e = (24 * int c + e) div (2 * e)"
proof -
  have epos: "(0::rat) < of_int e" using assms by simp
  have "(of_nat c / 5) / (of_int e / 60) + 1 / 2 = (of_int (24 * int c + e) :: rat) / of_int (2 * e)"
    using epos by (simp add: field_simps)
  then have "\<lfloor>(of_nat c / 5) / (of_int e / 60) + (1::rat) / 2\<rfloor> = (24 * int c + e) div (2 * e)"
    by (simp only: floor_divide_of_int_eq)
  with assms show ?thesis
    by (simp add: spec_wpm_def spec_round_def)
qed

lemma spec_accuracy_div:
  assumes "0 < t"
  shows "spec_accuracy c t = (200 * int c + int t) div (2 * int t)"
proof -
  have tpos: "(0::rat) < of_nat t" using assms by simp
  have "(of_nat c / of_nat t) * 100 + 1 / 2 = (of_int (200 * int c + int t) :: rat) / of_int (2 * int t)"
    using tpos by (simp add: field_simps)
  then have "\<lfloor>(of_nat c / of_nat t) * 100 + (1::rat) / 2\<rfloor> = (200 * int c + int t) div (2 * int t)"
    by (simp only: floor_divide_of_int_eq)
  with assms show ?thesis
    by (simp add: spec_accuracy_def spec_round_def)
qed

lemma floor_of_approx_tie:
  fixes n d :: int and v :: rat
  assumes d: "0 < d" and r: "n mod d = 0"
    and lo: "of_int n / of_int d - 1 / of_int d < v"
    and hi: "v < of_int n / of_int d + 1 / of_int d"
  shows "\<lfloor>v\<rfloor> = n div d \<or> \<lfloor>v\<rfloor> = n div d - 1"
proof -
  define N where "N = n div d"
  have "n = d * (n div d) + n mod d" by simp
  with r have n: "n = d * N" by (simp add: N_def)
  have dpos: "(0::rat) < of_int d" using d by simp
  have frac: "(of_int n :: rat) / of_int d = of_int N"
    using dpos by (simp add: n)
  have "(1::rat) \<le> of_int d" using d by simp
  then have inv: "(1::rat) / of_int d \<le> 1"
    using dpos by (simp add: field_simps)
  have a: "of_int N - 1 < v" using lo frac inv by linarith
  have b: "v < of_int N + 1" using hi frac inv by linarith
  show ?thesis
  proof (cases "of_int N \<le> v")
    case True
    then have "\<lfloor>v\<rfloor> = N" using b by (intro floor_unique) simp_all
    then show ?thesis by (simp add: N_def)
  next
    case False
    then have "v < of_int (N - 1) + 1" by simp
    moreover have "of_int (N - 1) \<le> v" using a by simp
    ultimately have "\<lfloor>v\<rfloor> = N - 1" by (intro floor_unique)
    then show ?thesis by (simp add: N_def)
  qed
qed

lemma wpm_error:
  fixes c :: nat and e :: int
  assumes e: "0 < e" and c0: "0 < c" and c: "96 * int c < 2 ^ 53"
  defines "v \<equiv> js_div (js_div (of_nat c) 5) (js_div (of_int e) 60)"
  shows "of_int (24 * int c + e) / of_int (2 * e) - 1 / of_int (2 * e) < v + 1 / 2"
    and "v + 1 / 2 < of_int (24 * int c + e) / of_int (2 * e) + 1 / of_int (2 * e)"
proof -
  define A :: rat where "A = of_nat c / 5"
  define B :: rat where "B = of_int e / 60"
  define a where "a = round_double A"
  define b where "b = round_double B"
  have v: "v = round_double (a / b)"
    by (simp add: v_def js_div_def a_def b_def A_def B_def)
  have A: "0 < A" using c0 by (simp add: A_def)
  have B: "0 < B" using e by (simp add: B_def)
  note ra = round_double_rel[OF A, folded a_def]
  note rb = round_double_rel[OF B, folded b_def]
  have "0 < a" "0 < b"
    using round_double_pos[OF A] round_double_pos[OF B] by (simp_all add: a_def b_def)
  then have q: "0 < a / b" by simp
  note rv = round_double_rel[OF q, folded v]
  note bounds = quotient_of_rounded[OF A B ra rb rv]
  have epos: "(0::rat) < of_int e" using e by simp
  have V: "A / B = 12 * of_nat c / of_int e"
    by (simp add: A_def B_def)
  have "(96 * of_int (int c) :: rat) < 2 ^ 53"
    using c by (metis of_int_less_iff of_int_mult of_int_numeral of_int_power)
  then have c': "(96 * of_nat c :: rat) < 2 ^ 53" by simp
  have "4 / 2 ^ 53 * (A / B) = (96 * of_nat c / 2 ^ 53) * (1 / (2 * of_int e))"
    by (simp add: V)
  also have "\<dots> < 1 * (1 / (2 * of_int e))"
    using c' epos by (intro mult_strict_right_mono) simp_all
  finally have err: "4 / 2 ^ 53 * (A / B) < 1 / (2 * of_int e)" by simp
  have nd: "(of_int (24 * int c + e) :: rat) / of_int (2 * e) = A / B + 1 / 2"
    using epos by (simp add: V field_simps)
  have d1: "(1::rat) / of_int (2 * e) = 1 / (2 * of_int e)" by simp
  show "of_int (24 * int c + e) / of_int (2 * e) - 1 / of_int (2 * e) < v + 1 / 2"
    unfolding nd d1 using bounds(1) err by linarith
  show "v + 1 / 2 < of_int (24 * int c + e) / of_int (2 * e) + 1 / of_int (2 * e)"
    unfolding nd d1 using bounds(2) err by linarith
qed

lemma wpm_rounding_tie:
  fixes c :: nat and e :: int
  assumes e: "0 < e" and c: "96 * int c < 2 ^ 53"
    and tie: "(24 * int c + e) mod (2 * e) = 0"
  shows "Math_round (js_div (js_div (of_nat c) 5) (js_div (of_int e) 60)) = spec_wpm c e
    \<or> Math_round (js_div (js_div (of_nat c) 5) (js_div (of_int e) 60)) = spec_wpm c e - 1"
proof -
  have c0: "0 < c"
  proof (rule ccontr)
    assume "\<not> 0 < c"
    then have "c = 0" by simp
    with tie have "e mod (2 * e) = 0" by simp
    moreover have "e mod (2 * e) = e" using e by simp
    ultimately show False using e by simp
  qed
  have d: "0 < 2 * e" using e by simp
  note f = floor_of_approx_tie[OF d tie wpm_error[OF e c0 c]]
  then show ?thesis
    by (simp add: Math_round_def spec_wpm_div[OF e])
qed

lemma accuracy_error:
  fixes c t :: nat
  assumes t: "0 < t" and c0: "0 < c" and c: "600 * int c < 2 ^ 53"
  defines "v \<equiv> js_mul (js_div (of_nat c) (of_nat t)) 100"
  shows "of_int (200 * int c + int t) / of_int (2 * int t) - 1 / of_int (2 * int t) < v + 1 / 2"
    and "v + 1 / 2 < of_int (200 * int c + int t) / of_int (2 * int t) + 1 / of_int (2 * int t)"
proof -
  define A :: rat where "A = of_nat c / of_nat t"
  define a where "a = round_double A"
  have v: "v = round_double (a * 100)"
    by (simp add: v_def js_div_def js_mul_def a_def A_def)
  have A: "0 < A" using c0 t by (simp add: A_def)
  note ra = round_double_rel[OF A, folded a_def]
  have "0 < a" using round_double_pos[OF A] by (simp add: a_def)
  then have p: "0 < a * 100" by simp
  note rv = round_double_rel[OF p, folded v]
  have k: "(0::rat) < 100" by simp
  note bounds = product_of_rounded[OF A k ra rv]
  have tpos: "(0::rat) < of_nat t" using t by simp
  have "(600 * of_int (int c) :: rat) < 2 ^ 53"
    using c by (metis of_int_less_iff of_int_mult of_int_numeral of_int_power)
  then have c': "(600 * of_nat c :: rat) < 2 ^ 53" by simp
  have "3 / 2 ^ 53 * (A * 100) = (600 * of_nat c / 2 ^ 53) * (1 / (2 * of_nat t))"
    by (simp add: A_def)
  also have "\<dots> < 1 * (1 / (2 * of_nat t))"
    using c' tpos by (intro mult_strict_right_mono) simp_all
  finally have err: "3 / 2 ^ 53 * (A * 100) < 1 / (2 * of_nat t)" by simp
  have nd: "(of_int (200 * int c + int t) :: rat) / of_int (2 * int t) = A * 100 + 1 / 2"
    using tpos by (simp add: A_def field_simps)
  have d1: "(1::rat) / of_int (2 * int t) = 1 / (2 * of_nat t)" by simp
  show "of_int (200 * int c + int t) / of_int (2 * int t) - 1 / of_int (2 * int t) < v + 1 / 2"
    unfolding nd d1 using bounds(1) err by linarith
  show "v + 1 / 2 < of_int (200 * int c + int t) / of_int (2 * int t) + 1 / of_int (2 * int t)"
    unfolding nd d1 using bounds(2) err by linarith
qed

lemma accuracy_rounding_tie:
  fixes c t :: nat
  assumes t: "0 < t" and c: "600 * int c < 2 ^ 53"
    and tie: "(200 * int c + int t) mod (2 * int t) = 0"
  shows "Math_round (js_mul (js_div (of_nat c) (of_nat t)) 100) = spec_accuracy c t
    \<or> Math_round (js_mul (js_div (of_nat c) (of_nat t)) 100) = spec_accuracy c t - 1"
proof -
  have c0: "0 < c"
  proof (rule ccontr)
    assume "\<not> 0 < c"
    then have "c = 0" by simp
    with tie have "int t mod (2 * int t) = 0" by simp
    moreover have "int t mod (2 * int t) = int t" using t by simp
    ultimately show False using t by simp
  qed
  have d: "0 < 2 * int t" using t by simp
  note f = floor_of_approx_tie[OF d tie accuracy_error[OF t c0 c]]
  then show ?thesis
    by (simp add: Math_round_def spec_accuracy_div[OF t])
qed

lemma wpm_tie_up_example: "Math_round (js_div (js_div 1 5) (js_div 8 60)) = 2"
  by code_simp

lemma accuracy_tie_up_example: "Math_round (js_mul (js_div 3 40) 100) = 8"
  by code_simp

subsection \<open>The concrete runs\<close>

lemma tab_the_facts:
  "endsWith_space tab_the" "trim tab_the = str ''the''"
  "strip_separator tab_the \<noteq> str ''the''" "length (strip_separator tab_the) = 4"
  by (simp_all add: tab_the_def endsWith_space_def trim_def strip_separator_def str_def
      is_whitespace_def SPACE_def)

lemma the_engine_word: "getCurrentWord (the_engine now) = str ''the''"
  by (simp add: getCurrentWord_def the_engine_def)

lemma processInput_commit_perfect:
  assumes "\<not> finished s" and "endsWith_space v" and "trim v = getCurrentWord s"
  shows "correctChars (processInput s v now) = correctChars s + (length (getCurrentWord s) + 1)"
    and "wordHistory (processInput s v now) = wordHistory s @
           [\<lparr>wh_word = Some (getCurrentWord s), wh_typed = trim v,
             wh_correct = length (getCurrentWord s), wh_perfect = Some True,
             wh_timeTaken = 0\<rparr>]"
  using assms by (simp_all add: processInput_def Let_def spaceCountsAsChar_def)

lemma keystrokes_the:
  "typedChars (processKeystroke (the_engine 0) [SPACE] 1300) = 2"
  "typedChars (processInput (the_engine 0) [SPACE] 1300) = 1"
  "typedChars (processKeystroke (type_keys (the_engine 0) the_keys) [SPACE] 1300) = 8"
proof -
  show "typedChars (processKeystroke (the_engine 0) [SPACE] 1300) = 2"
    using processKeystroke_separator_typedChars[of "the_engine 0" 1300]
    by (simp add: trim_examples)
  show "typedChars (processInput (the_engine 0) [SPACE] 1300) = 1"
    using processInput_commit_typedChars[of "the_engine 0" "[SPACE]" 1300]
    by (simp add: trim_examples endsWith_space_def)
  have k: "currentInput (type_keys (the_engine 0) the_keys) = str ''the''"
      "typedChars (type_keys (the_engine 0) the_keys) = 3"
      "\<not> finished (type_keys (the_engine 0) the_keys)"
    using type_keys_chars[of "the_engine 0" the_keys]
    by (simp_all add: the_keys_facts)
  show "typedChars (processKeystroke (type_keys (the_engine 0) the_keys) [SPACE] 1300) = 8"
    using processKeystroke_separator_typedChars[OF k(3), of 1300] k(1,2)
    by (simp add: trim_examples)
qed

lemma processKeystroke_char_keeps:
  assumes "\<not> finished s" and "c \<noteq> SPACE"
  shows "correctChars (processKeystroke s [c] now) = correctChars s"
    and "getCurrentWord (processKeystroke s [c] now) = getCurrentWord s"
  using assms by (simp_all add: processKeystroke_def Let_def getCurrentWord_def start_def)

lemma type_keys_keeps:
  assumes "\<not> finished s" and "\<forall>k \<in> set ks. fst k \<noteq> SPACE"
  shows "correctChars (type_keys s ks) = correctChars s
    \<and> getCurrentWord (type_keys s ks) = getCurrentWord s"
  using assms
proof (induction ks arbitrary: s)
  case Nil
  then show ?case by simp
next
  case (Cons k ks)
  obtain c now where k: "k = (c, now)" by (cases k)
  with Cons.prems have c: "c \<noteq> SPACE" and rest: "\<forall>k \<in> set ks. fst k \<noteq> SPACE"
    by simp_all
  note nf = processKeystroke_char(3)[OF Cons.prems(1) c, of now]
  note keep = processKeystroke_char_keeps[OF Cons.prems(1) c, of now]
  from Cons.IH[OF nf rest] keep show ?case
    by (simp add: k)
qed

lemma keystrokes_the_correct:
  "correctChars (processKeystroke (type_keys (the_engine 0) the_keys) [SPACE] 1300) = 4"
proof -
  define s where "s = type_keys (the_engine 0) the_keys"
  have k: "currentInput s = str ''the''" "\<not> finished s"
    using type_keys_chars[of "the_engine 0" the_keys]
    by (simp_all add: the_keys_facts s_def)
  have keep: "correctChars s = 0" "getCurrentWord s = str ''the''"
    using type_keys_keeps[of "the_engine 0" the_keys]
    by (simp_all add: the_keys_facts s_def the_engine_word)
  define s1 where "s1 = (if started s then s else start s 1300)
      \<lparr>currentInput := currentInput s @ [SPACE], typedChars := typedChars s + 1\<rparr>"
  have g: "getCurrentWord s1 = getCurrentWord s"
    by (simp add: s1_def getCurrentWord_def)
  have s1: "\<not> finished s1" "getCurrentWord s1 = str ''the''" "correctChars s1 = 0"
    using k keep by (simp_all add: g) (simp_all add: s1_def)
  have t: "trim (currentInput s @ [SPACE]) = getCurrentWord s1"
    by (simp add: k s1 trim_examples)
  have c: "correctChars (processInput s1 (currentInput s @ [SPACE]) 1300) =
      correctChars s1 + (length (getCurrentWord s1) + 1)"
    using s1(1) _ t by (rule processInput_commit_perfect) simp
  have eq: "processKeystroke s [SPACE] 1300 = processInput s1 (currentInput s @ [SPACE]) 1300"
    unfolding s1_def by (rule processKeystroke_separator_eq[OF k(2)])
  have "correctChars (processKeystroke s [SPACE] 1300) =
      correctChars s1 + (length (getCurrentWord s1) + 1)"
    by (simp only: eq c)
  then have "correctChars (processKeystroke s [SPACE] 1300) = 4"
    by (simp add: s1 trim_examples)
  then show ?thesis
    by (simp only: s_def)
qed

lemma values_the:
  "typedChars (type_values (the_engine 0) the_values) = 7"
  "correctChars (type_values (the_engine 0) the_values) = 4"
  by (simp_all add: the_values_def processInput_def Let_def start_def emit_def
      endsWith_space_def spaceCountsAsChar_def getCurrentWord_def the_engine_def
      trim_def is_whitespace_def str_def SPACE_def)

lemma accuracy_4_of_8: "Math_round (js_mul (js_div 4 8) 100) = 50"
  by code_simp

lemma tie_engine_fields:
  "startedAt tie_engine = Some 1000" "endedAt tie_engine = None"
  "correctChars tie_engine = 41" "typedChars tie_engine = 41"
  by (simp_all add: tie_engine_def the_engine_def)

lemma tie_engine_elapsed: "getElapsedSeconds tie_engine 9000 = 8"
  using getElapsedSeconds_running[of tie_engine 1000 9000]
  by (simp add: tie_engine_fields)

lemma tie_engine_wpm: "getWPM tie_engine 9000 = 61"
  by (simp add: getWPM_eq tie_engine_elapsed tie_engine_fields wpm_tie_example)

lemma spec_wpm_examples: "spec_wpm 41 8 = 62" "spec_wpm 250 30 = 100" "spec_wpm 1 8 = 2"
  by (simp_all add: spec_wpm_div)

lemma accuracy_tie_engine_fields:
  "correctChars accuracy_tie_engine = 23" "typedChars accuracy_tie_engine = 40"
  by (simp_all add: accuracy_tie_engine_def the_engine_def)

lemma accuracy_tie_engine_value: "getAccuracy accuracy_tie_engine = 57"
  by (simp add: getAccuracy_eq accuracy_tie_engine_fields accuracy_tie_example)

lemma spec_accuracy_examples:
  "spec_accuracy 23 40 = 58" "spec_accuracy 3 40 = 8" "spec_accuracy 1 4 = 25"
  "spec_accuracy (Suc 0) 4 = 25"
  by (simp_all add: spec_accuracy_div)

lemma finish_flags:
  "finished (finish s now)" "\<not> finished s \<Longrightarrow> \<not> started (finish s now)"
  by (simp_all add: finish_def Let_def)

lemma start_fields:
  assumes "\<not> started s"
  shows "startedAt (start s now) = Some now" "endedAt (start s now) = None"
  using assms by (simp_all add: start_def)

lemma restarted_engine_fields:
  "finished restarted_engine" "startedAt restarted_engine = Some 40000"
  "endedAt restarted_engine = None"
proof -
  have nf: "\<not> finished half_minute_engine"
    by (simp add: half_minute_engine_def the_engine_def)
  have ns: "\<not> started (finish half_minute_engine 31000)"
    using nf by (rule finish_flags(2))
  show "finished restarted_engine"
    by (simp add: restarted_engine_def finish_flags(1))
  show "startedAt restarted_engine = Some 40000" "endedAt restarted_engine = None"
    using start_fields[OF ns, of 40000] by (simp_all add: restarted_engine_def)
qed

lemma restarted_engine_elapsed:
  "getElapsedSeconds restarted_engine 41000 = 1" "getElapsedSeconds restarted_engine 100000 = 60"
  using getElapsedSeconds_running[of restarted_engine 40000 41000]
    getElapsedSeconds_running[of restarted_engine 40000 100000]
  by (simp_all add: restarted_engine_fields)

lemma finish_sets_endedAt:
  assumes "\<not> finished s"
  shows "endedAt (finish s t1) = Some t1" "startedAt (finish s t1) = startedAt s"
  using assms by (simp_all add: finish_def Let_def)

subsection \<open>Claims\<close>

text \<open>
  C7. Once \<open>finished\<close> is set, \<open>processInput\<close>, \<open>processKeystroke\<close>, \<open>tick\<close> and \<open>finish\<close>
  return the engine as it was: no accumulator (\<open>typedChars\<close>, \<open>correctChars\<close>, \<open>wordHistory\<close>,
  \<open>currentWordIndex\<close>) changes and no callback is called, so a repeated \<open>finish\<close> does not
  fire \<open>onFinish\<close> again (the trace \<open>events\<close> is part of the state).
\<close>
theorem finished_is_terminal:
  assumes "finished s"
  shows "processInput s v now = s \<and> processKeystroke s ch now = s \<and> tick s now = s
    \<and> finish s now = s"
  using assms by (simp add: processInput_def processKeystroke_def tick_def finish_def)

lemma the_engine_finish:
  "finished (finish (the_engine 0) 1000)"
  by (simp add: finish_def the_engine_def Let_def emit_def)

theorem finished_is_terminal_witness:
  "finished (finish (the_engine 0) 1000)
   \<and> processInput (finish (the_engine 0) 1000) (str ''the '') 2000 = finish (the_engine 0) 1000
   \<and> processKeystroke (finish (the_engine 0) 1000) [SPACE] 2000 = finish (the_engine 0) 1000
   \<and> tick (finish (the_engine 0) 1000) 2000 = finish (the_engine 0) 1000
   \<and> finish (finish (the_engine 0) 1000) 2000 = finish (the_engine 0) 1000"
  using finished_is_terminal [OF the_engine_finish] the_engine_finish by simp

text \<open>
  C1 (as amended). On an engine that is not finished, \<open>processInput\<close> of a value ending in
  a space commits the token: with \<open>typed\<close> the value with all white space removed from both
  its ends (\<open>value.trim()\<close>) and \<open>target\<close> the current word, \<open>typedChars\<close> grows by
  \<open>typed.length + 1\<close>; when \<open>typed\<close> equals \<open>target\<close>, \<open>correctChars\<close> grows by
  \<open>target.length + 1\<close> and a perfect entry is appended to \<open>wordHistory\<close>; otherwise
  \<open>correctChars\<close> grows by the number of positions below both lengths where the two strings
  agree and a non-perfect entry with that count is appended; \<open>currentWordIndex\<close> advances by
  one and \<open>currentInput\<close> is cleared. For a word without white space followed by the space,
  \<open>typed\<close> is the word: \<open>the\<close> and a space, on the target \<open>the\<close>, add 4 and 4.
\<close>
theorem processInput_commits_token:
  assumes "\<not> finished s" and "endsWith_space v"
  shows "typedChars (processInput s v now) = typedChars s + (length (trim v) + 1)
    \<and> (trim v = getCurrentWord s \<longrightarrow>
         correctChars (processInput s v now) = correctChars s + (length (getCurrentWord s) + 1)
         \<and> wordHistory (processInput s v now) = wordHistory s @
             [\<lparr>wh_word = Some (getCurrentWord s), wh_typed = trim v,
               wh_correct = length (getCurrentWord s), wh_perfect = Some True,
               wh_timeTaken = 0\<rparr>])
    \<and> (trim v \<noteq> getCurrentWord s \<longrightarrow>
         correctChars (processInput s v now) = correctChars s +
           card {i. i < min (length (trim v)) (length (getCurrentWord s))
                    \<and> trim v ! i = getCurrentWord s ! i}
         \<and> wordHistory (processInput s v now) = wordHistory s @
             [\<lparr>wh_word = Some (getCurrentWord s), wh_typed = trim v,
               wh_correct = card {i. i < min (length (trim v)) (length (getCurrentWord s))
                                     \<and> trim v ! i = getCurrentWord s ! i},
               wh_perfect = Some False, wh_timeTaken = 0\<rparr>])
    \<and> currentWordIndex (processInput s v now) = currentWordIndex s + 1
    \<and> currentInput (processInput s v now) = []
    \<and> (v = w @ [SPACE] \<and> (\<forall>c \<in> set w. \<not> is_whitespace c) \<longrightarrow> trim v = w)"
  using assms
  by (simp add: processInput_def Let_def spaceCountsAsChar_def count_correct_eq
      trim_word_space)

theorem processInput_commits_token_witness:
  "\<not> finished (the_engine 0) \<and> endsWith_space (str ''the '') \<and> endsWith_space (str ''teh '')
   \<and> getCurrentWord (the_engine 0) = str ''the''
   \<and> trim (str ''the '') = str ''the''
   \<and> typedChars (processInput (the_engine 0) (str ''the '') 1000) = typedChars (the_engine 0) + 4
   \<and> correctChars (processInput (the_engine 0) (str ''the '') 1000)
       = correctChars (the_engine 0) + 4
   \<and> wordHistory (processInput (the_engine 0) (str ''the '') 1000) =
         [\<lparr>wh_word = Some (str ''the''), wh_typed = str ''the'', wh_correct = 3,
           wh_perfect = Some True, wh_timeTaken = 0\<rparr>]
   \<and> currentWordIndex (processInput (the_engine 0) (str ''the '') 1000) = 1
   \<and> typedChars (processInput (the_engine 0) (str ''teh '') 1000) = typedChars (the_engine 0) + 4
   \<and> correctChars (processInput (the_engine 0) (str ''teh '') 1000)
       = correctChars (the_engine 0) + 1
   \<and> wh_perfect (last (wordHistory (processInput (the_engine 0) (str ''teh '') 1000)))
       = Some False"
  using processInput_commits_token [where s = "the_engine 0" and v = "str ''the ''"
      and now = 1000 and w = "str ''the''"]
    processInput_commits_token [where s = "the_engine 0" and v = "str ''teh ''"
      and now = 1000 and w = "str ''teh''"]
    teh_counters
  by (simp add: the_engine_def str_def endsWith_space_def trim_def is_whitespace_def
      getCurrentWord_def SPACE_def)

text \<open>
  C1 as worded takes \<open>typed\<close> to be the value without its separator. \<open>trim\<close> removes all
  white space at both ends: for a tab, \<open>the\<close> and the space on the target \<open>the\<close>, the tab is
  dropped, the word is a perfect match and 4 typed and 4 correct characters are counted. The
  value without its separator (the tab and the word) has 4 characters and differs from the
  target, which would count 5 typed characters and a partial match.
\<close>

theorem processInput_trim_counterexample:
  "\<not> finished (the_engine 0) \<and> endsWith_space tab_the
   \<and> strip_separator tab_the \<noteq> getCurrentWord (the_engine 0)
   \<and> typedChars (processInput (the_engine 0) tab_the 1000) \<noteq>
       typedChars (the_engine 0) + (length (strip_separator tab_the) + 1)
   \<and> typedChars (processInput (the_engine 0) tab_the 1000) = typedChars (the_engine 0) + 4
   \<and> correctChars (processInput (the_engine 0) tab_the 1000) = correctChars (the_engine 0) + 4
   \<and> wh_perfect (last (wordHistory (processInput (the_engine 0) tab_the 1000))) = Some True"
proof -
  have nf: "\<not> finished (the_engine 0)" by simp
  have t: "trim tab_the = getCurrentWord (the_engine 0)"
    by (simp add: tab_the_facts the_engine_word)
  note ty = processInput_commit_typedChars[OF nf tab_the_facts(1), of 1000]
  note pf = processInput_commit_perfect[OF nf tab_the_facts(1) t, of 1000]
  have l: "length (str ''the'') = 3" by (simp add: str_def)
  show ?thesis
    using ty pf by (simp add: tab_the_facts the_engine_word l)
qed

text \<open>
  C2. In every state reached from a constructed engine by any sequence of commands, timer
  firings and callback assignments, \<open>correctChars \<le> typedChars\<close>.
\<close>
theorem correct_le_typed_invariant:
  assumes "constructor opts loaded rnd now = Some s0" and "run s0 cs = Some s"
  shows "correctChars s \<le> typedChars s"
proof -
  from assms(1) have "counters_ok s0"
    by (rule constructor_counters_ok)
  then have "counters_ok s"
    using assms(2) by (rule run_counters_ok)
  then show ?thesis
    by (simp add: counters_ok_def)
qed

theorem correct_le_typed_invariant_witness:
  "constructor the_options None zero_rng 0 = Some (the_engine 0)
   \<and> run (the_engine 0) [ProcessKeystroke (str ''t'') 1000, ProcessInput (str ''teh '') 2000]
       = Some (processInput (processKeystroke (the_engine 0) (str ''t'') 1000) (str ''teh '') 2000)
   \<and> correctChars (processInput (processKeystroke (the_engine 0) (str ''t'') 1000)
         (str ''teh '') 2000)
       \<le> typedChars (processInput (processKeystroke (the_engine 0) (str ''t'') 1000)
         (str ''teh '') 2000)"
  using correct_le_typed_invariant [of the_options None zero_rng 0 "the_engine 0"
      "[ProcessKeystroke (str ''t'') 1000, ProcessInput (str ''teh '') 2000]"
      "processInput (processKeystroke (the_engine 0) (str ''t'') 1000) (str ''teh '') 2000"]
  by (simp add: constructor_the_engine)

lemma Math_round_of_int [simp]: "Math_round (of_int w) = w"
proof -
  have "\<lfloor>(of_int w :: rat) + 1 / 2\<rfloor> = w"
    by (rule floor_unique) simp_all
  then show ?thesis
    by (simp add: Math_round_def)
qed

text \<open>
  C8. In every state reached from a constructed engine, \<open>wpmHistory\<close> has at most 120
  entries; \<open>_addHistoryPoint\<close> appends the sample and, once that makes 121, drops the oldest,
  so the bound holds again after it.
\<close>
theorem wpmHistory_bounded:
  assumes "constructor opts loaded rnd now = Some s0" and "run s0 cs = Some s"
  shows "length (wpmHistory s) \<le> 120
    \<and> wpmHistory (addHistoryPoint s w) =
        (if length (wpmHistory s) < 120 then wpmHistory s @ [w] else tl (wpmHistory s) @ [w])
    \<and> length (wpmHistory (addHistoryPoint s w)) \<le> 120"
proof -
  from assms(1) have "counters_ok s0"
    by (rule constructor_counters_ok)
  then have "counters_ok s"
    using assms(2) by (rule run_counters_ok)
  then have le: "length (wpmHistory s) \<le> 120"
    by (simp add: counters_ok_def)
  have "wpmHistory (addHistoryPoint s w) =
      (if length (wpmHistory s) < 120 then wpmHistory s @ [w] else tl (wpmHistory s) @ [w])"
  proof (cases "length (wpmHistory s) < 120")
    case True
    then show ?thesis
      by (simp add: addHistoryPoint_def Let_def)
  next
    case False
    with le have "length (wpmHistory s) = 120" by simp
    then have "wpmHistory s \<noteq> []" by auto
    with False show ?thesis
      by (simp add: addHistoryPoint_def Let_def)
  qed
  with le show ?thesis
    by (simp add: addHistoryPoint_length)
qed

theorem wpmHistory_bounded_witness:
  "constructor the_options None zero_rng 0 = Some (the_engine 0)
   \<and> run (the_engine 0) [Start 1000, HistoryIntervalFires 2000]
       = Some (historyIntervalFires (start (the_engine 0) 1000) 2000)
   \<and> length (wpmHistory (historyIntervalFires (start (the_engine 0) 1000) 2000)) = 6
   \<and> length (wpmHistory (historyIntervalFires (start (the_engine 0) 1000) 2000)) \<le> 120"
  using wpmHistory_bounded [of the_options None zero_rng 0 "the_engine 0"
      "[Start 1000, HistoryIntervalFires 2000]"
      "historyIntervalFires (start (the_engine 0) 1000) 2000" 0]
  by (simp add: constructor_the_engine)
    (simp add: historyIntervalFires_def start_def addHistoryPoint_def the_engine_def emit_def
      Let_def)

text \<open>
  C10. For \<open>count \<ge> 1\<close>, \<open>generateWords(count)\<close> returns an array of exactly \<open>count\<close> words
  in numbers mode, in quotes mode, and in english mode (any other mode name) when the pool is
  not empty; with an empty pool the english loop never returns. \<open>resetTest\<close> and the
  constructor call it with \<open>seedSize\<close> and return, or do not, with it.
\<close>
theorem generateWords_terminates:
  assumes "1 \<le> count"
  shows "(md = str ''numbers'' \<or> md = str ''quotes'' \<or> pool \<noteq> [] \<longrightarrow>
          (\<exists>ws. generateWords md pool count rnd = Some ws \<and> int (length ws) = count))
    \<and> (md \<noteq> str ''numbers'' \<and> md \<noteq> str ''quotes'' \<and> pool = [] \<longrightarrow>
          generateWords md pool count rnd = None)
    \<and> (seedSize s = count \<longrightarrow>
         (mode s = str ''numbers'' \<or> mode s = str ''quotes'' \<or> wordsPool s \<noteq> [] \<longrightarrow>
            (\<exists>s'. resetTest s rnd now = Some s' \<and> int (length (words s')) = count))
         \<and> (mode s \<noteq> str ''numbers'' \<and> mode s \<noteq> str ''quotes'' \<and> wordsPool s = [] \<longrightarrow>
            resetTest s rnd now = None))
    \<and> (or_default_int (opt_seedSize opts) 200 = count \<longrightarrow>
         (opt_mode opts = Some (str ''numbers'') \<or> opt_mode opts = Some (str ''quotes'')
            \<or> opt_words opts \<noteq> Some [] \<longrightarrow>
            (\<exists>s'. constructor opts loaded rnd now = Some s' \<and> int (length (words s')) = count))
         \<and> (opt_mode opts \<noteq> Some (str ''numbers'') \<and> opt_mode opts \<noteq> Some (str ''quotes'')
            \<and> opt_words opts = Some [] \<longrightarrow>
            constructor opts loaded rnd now = None))"
proof (intro conjI impI)
  assume "md = str ''numbers'' \<or> md = str ''quotes'' \<or> pool \<noteq> []"
  then show "\<exists>ws. generateWords md pool count rnd = Some ws \<and> int (length ws) = count"
    using assms by (intro generateWords_total) simp_all
next
  assume "md \<noteq> str ''numbers'' \<and> md \<noteq> str ''quotes'' \<and> pool = []"
  then show "generateWords md pool count rnd = None"
    using assms by (simp add: generateWords_diverges)
next
  assume c: "seedSize s = count"
    and m: "mode s = str ''numbers'' \<or> mode s = str ''quotes'' \<or> wordsPool s \<noteq> []"
  have "0 \<le> seedSize s" using assms c by simp
  then obtain ws where ws: "generateWords (mode s) (wordsPool s) (seedSize s) rnd = Some ws"
      "int (length ws) = seedSize s"
    using generateWords_total[OF _ m] by blast
  from resetTest_total[OF ws(1)] ws(2) c
  show "\<exists>s'. resetTest s rnd now = Some s' \<and> int (length (words s')) = count"
    by auto
next
  assume c: "seedSize s = count"
    and m: "mode s \<noteq> str ''numbers'' \<and> mode s \<noteq> str ''quotes'' \<and> wordsPool s = []"
  then have "generateWords (mode s) (wordsPool s) (seedSize s) rnd = None"
    using assms by (simp add: generateWords_diverges)
  then show "resetTest s rnd now = None"
    by (rule resetTest_diverges)
next
  assume c: "or_default_int (opt_seedSize opts) 200 = count"
    and m: "opt_mode opts = Some (str ''numbers'') \<or> opt_mode opts = Some (str ''quotes'')
            \<or> opt_words opts \<noteq> Some []"
  define md where "md = or_default_str (opt_mode opts) (str ''english'')"
  define pool where "pool = (case opt_words opts of None \<Rightarrow> DEFAULT_WORDS | Some ws \<Rightarrow> ws)"
  have "DEFAULT_WORDS \<noteq> []" by (simp add: DEFAULT_WORDS_def)
  then have "md = str ''numbers'' \<or> md = str ''quotes'' \<or> pool \<noteq> []"
    using m by (auto simp: md_def pool_def or_default_str_def str_def split: option.splits)
  moreover have "0 \<le> count" using assms by simp
  ultimately obtain ws where ws: "generateWords md pool count rnd = Some ws"
      "int (length ws) = count"
    using generateWords_total by blast
  then show "\<exists>s'. constructor opts loaded rnd now = Some s' \<and> int (length (words s')) = count"
    using c by (simp add: constructor_def resetTest_def md_def pool_def Let_def)
next
  assume c: "or_default_int (opt_seedSize opts) 200 = count"
    and m: "opt_mode opts \<noteq> Some (str ''numbers'') \<and> opt_mode opts \<noteq> Some (str ''quotes'')
            \<and> opt_words opts = Some []"
  define md where "md = or_default_str (opt_mode opts) (str ''english'')"
  have "md \<noteq> str ''numbers''" "md \<noteq> str ''quotes''"
    using m by (auto simp: md_def or_default_str_def split: option.splits)
  then have "generateWords md [] count rnd = None"
    using assms by (simp add: generateWords_diverges)
  then show "constructor opts loaded rnd now = None"
    using c m by (simp add: constructor_def resetTest_def md_def)
qed

theorem generateWords_terminates_witness:
  "(1::int) \<le> 1
   \<and> generateWords (str ''english'') [str ''the''] 1 zero_rng = Some [str ''the'']
   \<and> generateWords (str ''quotes'') [] 1 zero_rng = Some [str ''To'']
   \<and> generateWords (str ''english'') [] 1 zero_rng = None
   \<and> resetTest (the_engine 0) zero_rng 5 = Some (the_engine 5)
   \<and> constructor the_options None zero_rng 0 = Some (the_engine 0)
   \<and> constructor (the_options\<lparr>opt_words := Some []\<rparr>) None zero_rng 5 = None"
  using generateWords_terminates [where count = 1 and md = "str ''english''" and pool = "[]"
      and rnd = zero_rng and s = "the_engine 0" and now = 5
      and opts = "the_options\<lparr>opt_words := Some []\<rparr>" and loaded = None]
  by (simp add: constructor_the_engine generateWords_english_the generateWords_quotes_To
      resetTest_the_engine the_options_fields)

text \<open>
  C9 (as amended). Whenever the word generation ends (the new mode is \<open>numbers\<close> or \<open>quotes\<close>,
  or the pool is not empty, or \<open>seedSize \<le> 0\<close>), \<open>setMode\<close> and \<open>setTimeLimit\<close> store
  their argument and reset in full, also mid-run: afterwards the engine is neither started
  nor finished, \<open>words\<close> is what \<open>generateWords\<close> gives for the (new) mode, the index is 0,
  the input is empty and both counters are 0.
\<close>
theorem setters_reset:
  "(m = str ''numbers'' \<or> m = str ''quotes'' \<or> wordsPool s \<noteq> [] \<or> seedSize s \<le> 0 \<longrightarrow>
      (\<exists>s'. setMode s m rnd now = Some s' \<and> mode s' = m
         \<and> \<not> started s' \<and> \<not> finished s' \<and> startedAt s' = None \<and> endedAt s' = None
         \<and> generateWords m (wordsPool s) (seedSize s) rnd = Some (words s')
         \<and> currentWordIndex s' = 0 \<and> currentInput s' = []
         \<and> typedChars s' = 0 \<and> correctChars s' = 0 \<and> wordHistory s' = []))
   \<and> (mode s = str ''numbers'' \<or> mode s = str ''quotes'' \<or> wordsPool s \<noteq> []
        \<or> seedSize s \<le> 0 \<longrightarrow>
      (\<exists>s'. setTimeLimit s sec rnd now = Some s' \<and> timeLimit s' = sec \<and> timeLeft s' = sec
         \<and> \<not> started s' \<and> \<not> finished s' \<and> startedAt s' = None \<and> endedAt s' = None
         \<and> generateWords (mode s) (wordsPool s) (seedSize s) rnd = Some (words s')
         \<and> currentWordIndex s' = 0 \<and> currentInput s' = []
         \<and> typedChars s' = 0 \<and> correctChars s' = 0 \<and> wordHistory s' = []))"
proof (intro conjI impI)
  assume h: "m = str ''numbers'' \<or> m = str ''quotes'' \<or> wordsPool s \<noteq> [] \<or> seedSize s \<le> 0"
  define s0 where "s0 = s\<lparr>mode := m\<rparr>"
  have "mode s0 = str ''numbers'' \<or> mode s0 = str ''quotes'' \<or> wordsPool s0 \<noteq> []
      \<or> seedSize s0 \<le> 0"
    using h by (simp add: s0_def)
  then obtain s' where s': "resetTest s0 rnd now = Some s'"
    using resetTest_returns by blast
  note f = resetTest_fields[OF s']
  show "\<exists>s'. setMode s m rnd now = Some s' \<and> mode s' = m
         \<and> \<not> started s' \<and> \<not> finished s' \<and> startedAt s' = None \<and> endedAt s' = None
         \<and> generateWords m (wordsPool s) (seedSize s) rnd = Some (words s')
         \<and> currentWordIndex s' = 0 \<and> currentInput s' = []
         \<and> typedChars s' = 0 \<and> correctChars s' = 0 \<and> wordHistory s' = []"
    using s' f by (intro exI[of _ s']) (simp add: setMode_def s0_def)
next
  assume h: "mode s = str ''numbers'' \<or> mode s = str ''quotes'' \<or> wordsPool s \<noteq> []
        \<or> seedSize s \<le> 0"
  define s0 where "s0 = s\<lparr>timeLimit := sec, timeLeft := sec\<rparr>"
  have "mode s0 = str ''numbers'' \<or> mode s0 = str ''quotes'' \<or> wordsPool s0 \<noteq> []
      \<or> seedSize s0 \<le> 0"
    using h by (simp add: s0_def)
  then obtain s' where s': "resetTest s0 rnd now = Some s'"
    using resetTest_returns by blast
  note f = resetTest_fields[OF s']
  show "\<exists>s'. setTimeLimit s sec rnd now = Some s' \<and> timeLimit s' = sec \<and> timeLeft s' = sec
         \<and> \<not> started s' \<and> \<not> finished s' \<and> startedAt s' = None \<and> endedAt s' = None
         \<and> generateWords (mode s) (wordsPool s) (seedSize s) rnd = Some (words s')
         \<and> currentWordIndex s' = 0 \<and> currentInput s' = []
         \<and> typedChars s' = 0 \<and> correctChars s' = 0 \<and> wordHistory s' = []"
    using s' f by (intro exI[of _ s']) (simp add: setTimeLimit_def s0_def)
qed

theorem setters_reset_witness:
  "started mid_run_engine \<and> typedChars mid_run_engine = 2
   \<and> map_option started (setMode mid_run_engine (str ''quotes'') zero_rng 2000) = Some False
   \<and> map_option finished (setMode mid_run_engine (str ''quotes'') zero_rng 2000) = Some False
   \<and> map_option mode (setMode mid_run_engine (str ''quotes'') zero_rng 2000)
       = Some (str ''quotes'')
   \<and> map_option words (setMode mid_run_engine (str ''quotes'') zero_rng 2000)
       = Some [str ''To'']
   \<and> map_option typedChars (setMode mid_run_engine (str ''quotes'') zero_rng 2000) = Some 0
   \<and> map_option currentInput (setMode mid_run_engine (str ''quotes'') zero_rng 2000) = Some []
   \<and> map_option timeLimit (setTimeLimit mid_run_engine 30 zero_rng 2000) = Some 30
   \<and> map_option started (setTimeLimit mid_run_engine 30 zero_rng 2000) = Some False
   \<and> map_option typedChars (setTimeLimit mid_run_engine 30 zero_rng 2000) = Some 0"
  using setters_reset [where s = mid_run_engine and m = "str ''quotes''" and rnd = zero_rng
      and now = 2000 and sec = 30]
  by (auto simp: mid_run_engine_fields generateWords_quotes_To)

text \<open>
  The claim for every session state fails where the word generation does not end: an engine
  built in numbers mode over an empty pool never returns from \<open>setMode('english')\<close>.
\<close>

theorem setters_reset_counterexample:
  "constructor numbers_options None zero_rng 0 = Some numbers_engine
   \<and> setMode numbers_engine (str ''english'') zero_rng 2000 = None"
proof -
  have "resetTest (numbers_engine\<lparr>mode := str ''english''\<rparr>) zero_rng 2000 = None"
    by (rule resetTest_never_returns) (simp_all add: numbers_engine_fields)
  then show ?thesis
    by (simp add: constructor_numbers_engine setMode_def)
qed

text \<open>
  C3. The claim: \<open>processKeystroke\<close> with the separator appends it and delegates to the commit
  of \<open>processInput\<close> with no counter change of its own, so a word typed key by key and
  committed with the separator adds its length and \<open>typed.length + 1\<close>. The code counts the
  separator twice: \<open>typedChars++\<close> runs before the test for the space, and the commit adds
  the space again. A lone space adds 2 by \<open>processKeystroke\<close> and 1 by \<open>processInput\<close>; the
  word \<open>the\<close> and the space add 8 by keystrokes (accuracy 50 for a perfect word) and 7, as
  the claim says, through \<open>processInput\<close>.
\<close>
theorem separator_keystroke_double_count:
  "typedChars (processKeystroke (the_engine 0) [SPACE] 1300) = 2
   \<and> typedChars (processInput (the_engine 0) [SPACE] 1300) = 1
   \<and> typedChars (processKeystroke (type_keys (the_engine 0) the_keys) [SPACE] 1300) = 8
   \<and> correctChars (processKeystroke (type_keys (the_engine 0) the_keys) [SPACE] 1300) = 4
   \<and> getAccuracy (processKeystroke (type_keys (the_engine 0) the_keys) [SPACE] 1300) = 50
   \<and> typedChars (type_values (the_engine 0) the_values) = 7
   \<and> correctChars (type_values (the_engine 0) the_values) = 4
   \<and> length (map fst the_keys) + (length (trim (map fst the_keys @ [SPACE])) + 1) = 7"
  by (simp add: keystrokes_the keystrokes_the_correct values_the getAccuracy_eq
      accuracy_4_of_8 the_keys_facts trim_examples)


text \<open>
  C4 (as amended). The engine stores the limits it is given: the constructor takes
  \<open>timeLimit\<close> and \<open>seedSize\<close> from the options, replacing only an absent or zero option by
  the default (60, 200), and \<open>setTimeLimit\<close> stores its argument as it is. Nothing is clamped
  or rejected.
\<close>
theorem limits_stored_as_given:
  "(constructor opts loaded rnd now = Some s \<longrightarrow>
      timeLimit s = (case opt_timeLimit opts of None \<Rightarrow> 60 | Some v \<Rightarrow> if v = 0 then 60 else v)
      \<and> seedSize s = (case opt_seedSize opts of None \<Rightarrow> 200 | Some v \<Rightarrow> if v = 0 then 200 else v))
   \<and> (setTimeLimit s0 sec rnd now = Some s' \<longrightarrow>
      timeLimit s' = sec \<and> timeLeft s' = sec \<and> seedSize s' = seedSize s0)"
proof (intro conjI impI)
  assume c: "constructor opts loaded rnd now = Some s"
  from resetTest_fields(12,14)[OF c[unfolded constructor_def]]
  show "timeLimit s = (case opt_timeLimit opts of None \<Rightarrow> 60 | Some v \<Rightarrow> if v = 0 then 60 else v)"
    and "seedSize s = (case opt_seedSize opts of None \<Rightarrow> 200 | Some v \<Rightarrow> if v = 0 then 200 else v)"
    by (simp_all add: or_default_int_def)
next
  assume c: "setTimeLimit s0 sec rnd now = Some s'"
  from resetTest_fields(11,12,14)[OF c[unfolded setTimeLimit_def]]
  show "timeLimit s' = sec" "timeLeft s' = sec" "seedSize s' = seedSize s0"
    by simp_all
qed

theorem limits_stored_as_given_witness:
  "constructor the_options None zero_rng 0 = Some (the_engine 0)
   \<and> timeLimit (the_engine 0) = 60 \<and> seedSize (the_engine 0) = 1
   \<and> setTimeLimit (the_engine 0) 0 zero_rng 0
       = Some ((the_engine 0)\<lparr>timeLimit := 0, timeLeft := 0\<rparr>)
   \<and> timeLimit ((the_engine 0)\<lparr>timeLimit := 0, timeLeft := 0\<rparr>) = 0"
  using limits_stored_as_given [where opts = the_options and loaded = None and rnd = zero_rng
      and now = 0 and s = "the_engine 0" and ?s0.0 = "the_engine 0" and sec = 0
      and s' = "(the_engine 0)\<lparr>timeLimit := 0, timeLeft := 0\<rparr>"]
  by (simp add: constructor_the_engine setTimeLimit_the_engine_zero the_options_limits)

text \<open>
  C4 as stated fails: a negative time limit and a negative seed size given to the
  constructor are stored as they are, and \<open>setTimeLimit(0)\<close> stores 0.
\<close>

theorem limits_stored_as_given_counterexample:
  "map_option timeLimit (constructor negative_options None zero_rng 0) = Some (- 5)
   \<and> map_option seedSize (constructor negative_options None zero_rng 0) = Some (- 3)
   \<and> map_option timeLimit (setTimeLimit (the_engine 0) 0 zero_rng 1000) = Some 0"
  by (simp add: constructor_negative_options setTimeLimit_the_engine_zero)

text \<open>
  C5 (as amended). \<open>getWPM\<close> is 0 when \<open>getElapsedSeconds\<close> is not positive. Otherwise, for
  fewer than \<open>2^53 / 96\<close> correct characters, it is the specification's
  \<open>round((correctChars / 5) / (elapsedSeconds / 60))\<close> whenever that quotient is not an exact
  half, and on an exact half it is that value or one less, as the binary64 divisions fall:
  61 for 41 characters in 8 seconds, 2 for 1 character in 8 seconds. With 30 seconds and 250
  characters it is 100. \<open>getElapsedSeconds\<close> is 0 while \<open>startedAt\<close> is unset, the whole
  seconds from \<open>startedAt\<close> to now while \<open>endedAt\<close> is unset, and the whole seconds from
  \<open>startedAt\<close> to \<open>endedAt\<close>, whatever the time of the call, once \<open>finish\<close> has set \<open>endedAt\<close>.
\<close>
theorem getWPM_value:
  "(getElapsedSeconds s now \<le> 0 \<longrightarrow> getWPM s now = 0)
   \<and> (0 < getElapsedSeconds s now \<and> 96 * int (correctChars s) < 2 ^ 53 \<longrightarrow>
        ((24 * int (correctChars s) + getElapsedSeconds s now)
            mod (2 * getElapsedSeconds s now) \<noteq> 0 \<longrightarrow>
          getWPM s now = spec_wpm (correctChars s) (getElapsedSeconds s now))
        \<and> ((24 * int (correctChars s) + getElapsedSeconds s now)
            mod (2 * getElapsedSeconds s now) = 0 \<longrightarrow>
          getWPM s now = spec_wpm (correctChars s) (getElapsedSeconds s now)
          \<or> getWPM s now = spec_wpm (correctChars s) (getElapsedSeconds s now) - 1))
   \<and> (getElapsedSeconds s now = 30 \<and> correctChars s = 250 \<longrightarrow> getWPM s now = 100)
   \<and> (getElapsedSeconds s now = 8 \<and> correctChars s = 41 \<longrightarrow> getWPM s now = 61)
   \<and> (getElapsedSeconds s now = 8 \<and> correctChars s = 1 \<longrightarrow> getWPM s now = 2)
   \<and> (startedAt s = None \<longrightarrow> getElapsedSeconds s now = 0)
   \<and> (startedAt s = Some t0 \<and> endedAt s = None \<and> 0 < t0 \<and> t0 \<le> now \<and> now - t0 < 2 ^ 53 \<longrightarrow>
        getElapsedSeconds s now = (now - t0) div 1000)
   \<and> (startedAt s = Some t0 \<and> endedAt s = Some t1 \<and> 0 < t0 \<and> t0 \<le> t1 \<and> t1 - t0 < 2 ^ 53 \<longrightarrow>
        getElapsedSeconds s now = (t1 - t0) div 1000)
   \<and> (\<not> finished s \<and> startedAt s = Some t0 \<and> 0 < t0 \<and> t0 \<le> t1 \<and> t1 - t0 < 2 ^ 53 \<longrightarrow>
        getElapsedSeconds (finish s t1) now = (t1 - t0) div 1000)"
proof (intro conjI impI)
  assume "getElapsedSeconds s now \<le> 0"
  then show "getWPM s now = 0"
    by (simp add: getWPM_eq)
next
  assume h: "0 < getElapsedSeconds s now \<and> 96 * int (correctChars s) < 2 ^ 53"
    and nt: "(24 * int (correctChars s) + getElapsedSeconds s now)
            mod (2 * getElapsedSeconds s now) \<noteq> 0"
  from h have e: "0 < getElapsedSeconds s now" and c: "96 * int (correctChars s) < 2 ^ 53"
    by simp_all
  from wpm_rounding[OF e c nt] e show "getWPM s now = spec_wpm (correctChars s) (getElapsedSeconds s now)"
    by (simp add: getWPM_eq spec_wpm_div)
next
  assume h: "0 < getElapsedSeconds s now \<and> 96 * int (correctChars s) < 2 ^ 53"
    and tie: "(24 * int (correctChars s) + getElapsedSeconds s now)
            mod (2 * getElapsedSeconds s now) = 0"
  from h have e: "0 < getElapsedSeconds s now" and c: "96 * int (correctChars s) < 2 ^ 53"
    by simp_all
  from wpm_rounding_tie[OF e c tie] e
  show "getWPM s now = spec_wpm (correctChars s) (getElapsedSeconds s now)
          \<or> getWPM s now = spec_wpm (correctChars s) (getElapsedSeconds s now) - 1"
    by (simp add: getWPM_eq)
next
  assume "getElapsedSeconds s now = 30 \<and> correctChars s = 250"
  then show "getWPM s now = 100"
    using wpm_spec_example by (simp add: getWPM_eq)
next
  assume "getElapsedSeconds s now = 8 \<and> correctChars s = 41"
  then show "getWPM s now = 61"
    using wpm_tie_example by (simp add: getWPM_eq)
next
  assume "getElapsedSeconds s now = 8 \<and> correctChars s = 1"
  then show "getWPM s now = 2"
    using wpm_tie_up_example by (simp add: getWPM_eq)
next
  assume "startedAt s = None"
  then show "getElapsedSeconds s now = 0"
    by (rule getElapsedSeconds_not_started)
next
  assume "startedAt s = Some t0 \<and> endedAt s = None \<and> 0 < t0 \<and> t0 \<le> now \<and> now - t0 < 2 ^ 53"
  then show "getElapsedSeconds s now = (now - t0) div 1000"
    by (simp add: getElapsedSeconds_running)
next
  assume "startedAt s = Some t0 \<and> endedAt s = Some t1 \<and> 0 < t0 \<and> t0 \<le> t1 \<and> t1 - t0 < 2 ^ 53"
  then show "getElapsedSeconds s now = (t1 - t0) div 1000"
    by (simp add: getElapsedSeconds_ended)
next
  assume h: "\<not> finished s \<and> startedAt s = Some t0 \<and> 0 < t0 \<and> t0 \<le> t1 \<and> t1 - t0 < 2 ^ 53"
  then have "startedAt (finish s t1) = Some t0" "endedAt (finish s t1) = Some t1"
    by (simp_all add: finish_sets_endedAt)
  with h show "getElapsedSeconds (finish s t1) now = (t1 - t0) div 1000"
    by (intro getElapsedSeconds_ended) simp_all
qed

theorem getWPM_value_witness:
  "getElapsedSeconds (the_engine 0) 31000 = 0 \<and> getWPM (the_engine 0) 31000 = 0
   \<and> startedAt half_minute_engine = Some 1000 \<and> endedAt half_minute_engine = None
   \<and> correctChars half_minute_engine = 250
   \<and> getElapsedSeconds half_minute_engine 31000 = 30
   \<and> getWPM half_minute_engine 31000 = 100 \<and> spec_wpm 250 30 = 100
   \<and> correctChars tie_engine = 41 \<and> getElapsedSeconds tie_engine 9000 = 8
   \<and> getWPM tie_engine 9000 = 61 \<and> spec_wpm 41 8 - 1 = 61
   \<and> \<not> finished half_minute_engine
   \<and> getElapsedSeconds (finish half_minute_engine 31000) 99000 = 30
   \<and> getWPM (finish half_minute_engine 31000) 99000 = 100"
proof -
  note idle = getWPM_value [of "the_engine 0" 31000 0 0]
  note run = getWPM_value [of half_minute_engine 31000 1000 31000]
  note tie = getWPM_value [of tie_engine 9000 1000 0]
  note ended = getWPM_value [of "finish half_minute_engine 31000" 99000 1000 31000]
  note fin = getWPM_value [of half_minute_engine 99000 1000 31000]
  have nf: "\<not> finished half_minute_engine"
    by (simp add: half_minute_engine_def the_engine_def)
  have e0: "getElapsedSeconds (the_engine 0) 31000 = 0"
    using idle by (simp add: the_engine_def)
  have w0: "getWPM (the_engine 0) 31000 = 0"
    using idle e0 by simp
  have e1: "getElapsedSeconds half_minute_engine 31000 = 30"
    using run by (simp add: half_minute_engine_fields)
  have w1: "getWPM half_minute_engine 31000 = 100"
    using run e1 by (simp add: half_minute_engine_fields)
  have e2: "getElapsedSeconds tie_engine 9000 = 8"
    using tie by (simp add: tie_engine_fields)
  have w2: "getWPM tie_engine 9000 = 61"
    using tie e2 by (simp add: tie_engine_fields)
  have e3: "getElapsedSeconds (finish half_minute_engine 31000) 99000 = 30"
    using fin nf by (simp add: half_minute_engine_fields)
  have w3: "getWPM (finish half_minute_engine 31000) 99000 = 100"
    using ended e3 by (simp add: half_minute_engine_fields)
  show ?thesis
    by (simp add: half_minute_engine_fields tie_engine_fields spec_wpm_examples
        nf e0 w0 e1 w1 e2 w2 e3 w3)
qed

text \<open>
  C5 as stated fails. With 41 correct characters after 8 seconds the quotient is \<open>61.5\<close> and
  the specification's value is 62, but the three binary64 divisions give
  \<open>61.49999999999999\<close> and \<open>getWPM\<close> returns 61. And a finished engine on which \<open>start\<close> is
  called again has \<open>endedAt\<close> unset: its elapsed seconds are not fixed.
\<close>

theorem getWPM_value_counterexample:
  "correctChars tie_engine = 41 \<and> getElapsedSeconds tie_engine 9000 = 8
   \<and> getWPM tie_engine 9000 = 61 \<and> spec_wpm 41 8 = 62
   \<and> getWPM tie_engine 9000 \<noteq>
       spec_wpm (correctChars tie_engine) (getElapsedSeconds tie_engine 9000)
   \<and> finished restarted_engine
   \<and> getElapsedSeconds restarted_engine 41000 = 1
   \<and> getElapsedSeconds restarted_engine 100000 = 60"
  by (simp add: tie_engine_fields tie_engine_elapsed tie_engine_wpm spec_wpm_examples
      restarted_engine_fields restarted_engine_elapsed)

text \<open>
  C6 (as amended). \<open>getAccuracy\<close> is exactly 100 when \<open>typedChars\<close> is 0. Otherwise, for fewer
  than \<open>2^53 / 600\<close> correct characters, it is the specification's
  \<open>round((correctChars / typedChars) * 100)\<close> whenever that product is not an exact half, and
  on an exact half it is that value or one less, as the binary64 division and
  multiplication fall: 8 for 3 of 40 characters, 57 for 23 of 40.
\<close>
theorem getAccuracy_value:
  "(typedChars s = 0 \<longrightarrow> getAccuracy s = 100)
   \<and> (0 < typedChars s \<and> 600 * int (correctChars s) < 2 ^ 53 \<longrightarrow>
        ((200 * int (correctChars s) + int (typedChars s)) mod (2 * int (typedChars s)) \<noteq> 0
          \<longrightarrow> getAccuracy s = spec_accuracy (correctChars s) (typedChars s))
        \<and> ((200 * int (correctChars s) + int (typedChars s)) mod (2 * int (typedChars s)) = 0
          \<longrightarrow> getAccuracy s = spec_accuracy (correctChars s) (typedChars s)
              \<or> getAccuracy s = spec_accuracy (correctChars s) (typedChars s) - 1))
   \<and> (correctChars s = 3 \<and> typedChars s = 40 \<longrightarrow> getAccuracy s = 8)
   \<and> (correctChars s = 23 \<and> typedChars s = 40 \<longrightarrow> getAccuracy s = 57)"
proof (intro conjI impI)
  assume "typedChars s = 0"
  then show "getAccuracy s = 100"
    by (simp add: getAccuracy_eq)
next
  assume h: "0 < typedChars s \<and> 600 * int (correctChars s) < 2 ^ 53"
    and nt: "(200 * int (correctChars s) + int (typedChars s)) mod (2 * int (typedChars s)) \<noteq> 0"
  from h have t: "0 < typedChars s" and c: "600 * int (correctChars s) < 2 ^ 53"
    by simp_all
  from accuracy_rounding[OF t c nt] t
  show "getAccuracy s = spec_accuracy (correctChars s) (typedChars s)"
    by (simp add: getAccuracy_eq spec_accuracy_div)
next
  assume h: "0 < typedChars s \<and> 600 * int (correctChars s) < 2 ^ 53"
    and tie: "(200 * int (correctChars s) + int (typedChars s)) mod (2 * int (typedChars s)) = 0"
  from h have t: "0 < typedChars s" and c: "600 * int (correctChars s) < 2 ^ 53"
    by simp_all
  from accuracy_rounding_tie[OF t c tie] t
  show "getAccuracy s = spec_accuracy (correctChars s) (typedChars s)
      \<or> getAccuracy s = spec_accuracy (correctChars s) (typedChars s) - 1"
    by (simp add: getAccuracy_eq)
next
  assume "correctChars s = 3 \<and> typedChars s = 40"
  then show "getAccuracy s = 8"
    using accuracy_tie_up_example by (simp add: getAccuracy_eq)
next
  assume "correctChars s = 23 \<and> typedChars s = 40"
  then show "getAccuracy s = 57"
    using accuracy_tie_example by (simp add: getAccuracy_eq)
qed

theorem getAccuracy_value_witness:
  "typedChars (the_engine 0) = 0 \<and> getAccuracy (the_engine 0) = 100
   \<and> typedChars (processInput (the_engine 0) (str ''teh '') 1000) = 4
   \<and> correctChars (processInput (the_engine 0) (str ''teh '') 1000) = 1
   \<and> getAccuracy (processInput (the_engine 0) (str ''teh '') 1000) = 25
   \<and> spec_accuracy 1 4 = 25
   \<and> correctChars accuracy_tie_engine = 23 \<and> typedChars accuracy_tie_engine = 40
   \<and> getAccuracy accuracy_tie_engine = 57 \<and> spec_accuracy 23 40 - 1 = 57"
  using getAccuracy_value [of "the_engine 0"]
    getAccuracy_value [of "processInput (the_engine 0) (str ''teh '') 1000"]
    getAccuracy_value [of accuracy_tie_engine]
  by (simp add: teh_counters accuracy_tie_engine_fields spec_accuracy_examples)

text \<open>
  C6 as stated fails. With 23 of 40 characters correct the product is \<open>57.5\<close> and the
  specification's value is 58, but in binary64 it is \<open>57.49999999999999\<close> and
  \<open>getAccuracy\<close> returns 57.
\<close>

theorem getAccuracy_value_counterexample:
  "correctChars accuracy_tie_engine = 23 \<and> typedChars accuracy_tie_engine = 40
   \<and> getAccuracy accuracy_tie_engine = 57 \<and> spec_accuracy 23 40 = 58
   \<and> getAccuracy accuracy_tie_engine \<noteq>
       spec_accuracy (correctChars accuracy_tie_engine) (typedChars accuracy_tie_engine)"
  by (simp add: accuracy_tie_engine_fields accuracy_tie_engine_value spec_accuracy_examples)

end
